theory Spec2Isabelle
  imports Complex_Main "HOL-Library.AList"
begin

section \<open>Data model of \<open>trip_kinematics/Robot.py\<close>\<close>

text \<open>
  Python dictionaries keep insertion order and are iterated in that order, so a
  dictionary is an association list: \<open>map_of d k\<close> is the lookup \<open>d[k]\<close>
  (\<open>None\<close> where Python raises \<open>KeyError\<close>), \<open>AList.update k v d\<close> is the
  assignment \<open>d[k] = v\<close> (in place for a known key, appended for a new one), and
  \<open>map fst d\<close> is \<open>d.keys()\<close>. Floats are modelled as reals.
\<close>

type_synonym actuated_state = "(string \<times> real) list"
type_synonym virtual_state = "(string \<times> (string \<times> real) list) list"

text \<open>
  Every exception the module raises or lets through. The three \<open>KeyError\<close>s with a
  message of their own are kept apart from the \<open>KeyError\<close> of a failed subscript.
\<close>

datatype error =
    KeyError_duplicate_actuator
  | KeyError_duplicate_virtual
  | KeyError_no_group string
  | KeyError_endeffector
  | KeyError_missing string
  | RuntimeError_initial_state nat nat
  | IndexError
  | AttributeError
  | Raised string

text \<open>
  Modelled from the spec: the classes \<open>Transformation\<close> and \<open>KinematicGroup\<close> of
  \<open>trip_kinematics/KinematicGroup.py\<close>, as far as \<open>Robot.py\<close> reads them. The
  records hold \<open>str(t)\<close> (the name) and \<open>t.get_state()\<close> of a transformation, and
  \<open>str(g)\<close> (the name), \<open>g.parent\<close> (the name of the parent group),
  \<open>g.get_virtual_transformations()\<close>, \<open>g.get_virtual_state()\<close> and
  \<open>g.get_actuated_state()\<close> of a group; the getters are reads. The field
  \<open>internal\<close> stands for the private data of a group (mapping functions, hints,
  caches) that \<open>Robot.py\<close> never looks at; it is \<open>None\<close> for the groups the robot
  builds itself.
\<close>

record transformation =
  t_name :: string
  t_state :: "(string \<times> real) list"

record 'x group =
  name :: string
  parent :: string
  virtual_transformations :: "transformation list"
  virtual_state :: virtual_state
  actuated_state :: actuated_state
  internal :: "'x option"

datatype 'x element = Transformation transformation | KinematicGroup "'x group"

fun str :: "'x element \<Rightarrow> string" where
  "str (Transformation t) = t_name t"
| "str (KinematicGroup g) = name g"

text \<open>
  Modelled from the spec: the constructor \<open>OpenKinematicGroup(name,
  virtual_transformations, parent)\<close> of \<open>KinematicGroup.py\<close>. A group without a
  parent is its own parent (the root sentinel), otherwise the parent reference is the
  parent's name. The virtual state of an open group holds the state of every member
  with declared state variables; the actuated state is the same data under composite
  (transformation name, parameter name) keys, joined with an underscore as
  \<open>get_symbolic_rep\<close> joins them.
\<close>

definition OpenKinematicGroup ::
  "string \<Rightarrow> transformation list \<Rightarrow> 'x group option \<Rightarrow> 'x group"
where
  "OpenKinematicGroup n ts p =
     \<lparr> name = n,
       parent = (case p of None \<Rightarrow> n | Some g \<Rightarrow> name g),
       virtual_transformations = ts,
       virtual_state = map (\<lambda>t. (t_name t, t_state t)) (filter (\<lambda>t. t_state t \<noteq> []) ts),
       actuated_state =
         concat (map (\<lambda>t. map (\<lambda>(k, v). (t_name t @ ''_'' @ k, v)) (t_state t)) ts),
       internal = None \<rparr>"

record 'x robot =
  group_dict :: "(string \<times> 'x group) list"
  actuator_group_mapping :: "(string \<times> string) list"
  virtual_group_mapping :: "(string \<times> string) list"

section \<open>\<open>Robot.__init__\<close>\<close>

text \<open>
  The two inner loops of the constructor (lines 42-45 and 47-50): every key of the
  group is checked against the mapping built so far and then entered into it.
\<close>

fun register_keys ::
  "error \<Rightarrow> string \<Rightarrow> string list \<Rightarrow> (string \<times> string) list \<Rightarrow> error + (string \<times> string) list"
where
  "register_keys e gname [] mapping = Inr mapping"
| "register_keys e gname (key # keys) mapping =
     (if key \<in> set (map fst mapping) then Inl e
      else register_keys e gname keys (AList.update key gname mapping))"

text \<open>Lines 39-50: the group is entered into the group table; its keys are checked
  only when its virtual state is not empty.\<close>

definition register :: "'x group \<Rightarrow> 'x robot \<Rightarrow> error + 'x robot" where
  "register g self =
     (let gd = AList.update (name g) g (group_dict self) in
      if virtual_state g \<noteq> [] then
        (case register_keys KeyError_duplicate_actuator (name g)
                (map fst (actuated_state g)) (actuator_group_mapping self) of
           Inl e \<Rightarrow> Inl e
         | Inr am \<Rightarrow>
             (case register_keys KeyError_duplicate_virtual (name g)
                     (map fst (virtual_state g)) (virtual_group_mapping self) of
                Inl e \<Rightarrow> Inl e
              | Inr vm \<Rightarrow>
                  Inr \<lparr> group_dict = gd, actuator_group_mapping = am,
                        virtual_group_mapping = vm \<rparr>))
      else Inr (self\<lparr>group_dict := gd\<rparr>))"

text \<open>
  Line 32: the notice printed for a bare transformation. \<open>kinematic_chain[i-1]\<close> is
  the last element of the list when \<open>i = 0\<close> (Python's negative index).
\<close>

definition warning :: "'x element list \<Rightarrow> nat \<Rightarrow> string" where
  "warning kinematic_chain i =
     ''Warning: Transformation '' @ str (kinematic_chain ! i)
       @ '' was converted to a OpenKinematicGroup with parent ''
       @ str (kinematic_chain ! (if i = 0 then length kinematic_chain - 1 else i - 1))"

text \<open>Lines 31-37: a bare transformation becomes a singleton open group.\<close>

definition as_group :: "'x element list \<Rightarrow> nat \<Rightarrow> 'x robot \<Rightarrow> error + 'x group" where
  "as_group kinematic_chain i self =
     (case kinematic_chain ! i of
        KinematicGroup g \<Rightarrow> Inr g
      | Transformation t \<Rightarrow>
          if i > 0 then
            (case map_of (group_dict self) (str (kinematic_chain ! (i - 1))) of
               None \<Rightarrow> Inl (KeyError_missing (str (kinematic_chain ! (i - 1))))
             | Some p \<Rightarrow> Inr (OpenKinematicGroup (t_name t) [t] (Some p)))
          else Inr (OpenKinematicGroup (t_name t) [t] None))"

text \<open>
  The loop \<open>for i in range(len(kinematic_chain))\<close>. The result is the list of printed
  notices together with the constructed robot, or with the exception that ended the
  construction.
\<close>

function init_loop ::
  "'x element list \<Rightarrow> nat \<Rightarrow> string list \<Rightarrow> 'x robot \<Rightarrow> string list \<times> (error + 'x robot)"
where
  "init_loop kinematic_chain i out self =
     (if i < length kinematic_chain then
        (let out' = (case kinematic_chain ! i of
                       Transformation t \<Rightarrow> out @ [warning kinematic_chain i]
                     | KinematicGroup g \<Rightarrow> out)
         in case as_group kinematic_chain i self of
              Inl e \<Rightarrow> (out', Inl e)
            | Inr g \<Rightarrow>
                (case register g self of
                   Inl e \<Rightarrow> (out', Inl e)
                 | Inr self' \<Rightarrow> init_loop kinematic_chain (Suc i) out' self'))
      else (out, Inr self))"
  by pat_completeness auto
termination
  by (relation "measure (\<lambda>(kinematic_chain, i, out, self). length kinematic_chain - i)") auto

declare init_loop.simps [simp del]

definition Robot_init :: "'x element list \<Rightarrow> string list \<times> (error + 'x robot)" where
  "Robot_init kinematic_chain =
     init_loop kinematic_chain 0 []
       \<lparr> group_dict = [], actuator_group_mapping = [], virtual_group_mapping = [] \<rparr>"

section \<open>State access of the robot\<close>

text \<open>
  The methods of a group that change it are code of \<open>KinematicGroup.py\<close>; they are
  parameters of the model. A call returns the exception it raised, if any, and the
  group as the call left it.
\<close>

type_synonym ('x, 'a) group_method = "'x group \<Rightarrow> 'a \<Rightarrow> error option \<times> 'x group"

text \<open>\<open>Robot.set_virtual_state\<close> (lines 80-82): one call of the owning group's setter
  for every key of the argument.\<close>

fun set_virtual_state ::
  "('x, virtual_state) group_method \<Rightarrow> 'x robot \<Rightarrow> virtual_state \<Rightarrow> error option \<times> 'x robot"
where
  "set_virtual_state set_v self [] = (None, self)"
| "set_virtual_state set_v self ((key, val) # state) =
     (case map_of (virtual_group_mapping self) key of
        None \<Rightarrow> (Some (KeyError_missing key), self)
      | Some gname \<Rightarrow>
          (case map_of (group_dict self) gname of
             None \<Rightarrow> (Some (KeyError_missing gname), self)
           | Some g \<Rightarrow>
               (case set_v g [(key, val)] of
                  (Some e, g') \<Rightarrow>
                    (Some e, self\<lparr>group_dict := AList.update gname g' (group_dict self)\<rparr>)
                | (None, g') \<Rightarrow>
                    set_virtual_state set_v
                      (self\<lparr>group_dict := AList.update gname g' (group_dict self)\<rparr>) state)))"

text \<open>\<open>Robot.set_actuated_state\<close>, first loop (lines 90-94): the argument is split into
  one dictionary per owning group.\<close>

fun grouping_loop ::
  "(string \<times> string) list \<Rightarrow> actuated_state \<Rightarrow> (string \<times> actuated_state) list
     \<Rightarrow> error + (string \<times> actuated_state) list"
where
  "grouping_loop amap [] grouping = Inr grouping"
| "grouping_loop amap ((key, val) # state) grouping =
     (case map_of amap key of
        None \<Rightarrow> Inl (KeyError_missing key)
      | Some gname \<Rightarrow>
          (let sub = (case map_of grouping gname of None \<Rightarrow> [] | Some s \<Rightarrow> s)
           in grouping_loop amap state
                (AList.update gname (AList.update key val sub) grouping)))"

text \<open>Second loop (lines 95-96): the setter of every group of the grouping is called
  with its dictionary.\<close>

fun setter_loop ::
  "('x, 'a) group_method \<Rightarrow> 'x robot \<Rightarrow> (string \<times> 'a) list \<Rightarrow> error option \<times> 'x robot"
where
  "setter_loop set_g self [] = (None, self)"
| "setter_loop set_g self ((key, sub) # grouping) =
     (case map_of (group_dict self) key of
        None \<Rightarrow> (Some (KeyError_missing key), self)
      | Some g \<Rightarrow>
          (case set_g g sub of
             (Some e, g') \<Rightarrow>
               (Some e, self\<lparr>group_dict := AList.update key g' (group_dict self)\<rparr>)
           | (None, g') \<Rightarrow>
               setter_loop set_g
                 (self\<lparr>group_dict := AList.update key g' (group_dict self)\<rparr>) grouping))"

definition set_actuated_state ::
  "('x, actuated_state) group_method \<Rightarrow> 'x robot \<Rightarrow> actuated_state \<Rightarrow> error option \<times> 'x robot"
where
  "set_actuated_state set_a self state =
     (case grouping_loop (actuator_group_mapping self) state [] of
        Inl e \<Rightarrow> (Some e, self)
      | Inr grouping \<Rightarrow> setter_loop set_a self grouping)"

text \<open>\<open>Robot.get_actuated_state\<close> and \<open>Robot.get_virtual_state\<close> (lines 105-125): the
  states of all groups, merged in the order of the group table.\<close>

definition get_actuated_state :: "'x robot \<Rightarrow> actuated_state" where
  "get_actuated_state self =
     foldl (\<lambda>acc (key, g). foldl (\<lambda>acc (k, v). AList.update k v acc) acc (actuated_state g))
       [] (group_dict self)"

definition get_virtual_state :: "'x robot \<Rightarrow> virtual_state" where
  "get_virtual_state self =
     foldl (\<lambda>acc (key, g). foldl (\<lambda>acc (k, v). AList.update k v acc) acc (virtual_state g))
       [] (group_dict self)"

text \<open>\<open>Robot.pass_group_arg_v_to_a\<close> (lines 60-64).\<close>

fun pass_group_arg_v_to_a ::
  "('x, 'a) group_method \<Rightarrow> 'x robot \<Rightarrow> (string \<times> 'a) list \<Rightarrow> error option \<times> 'x robot"
where
  "pass_group_arg_v_to_a pass self [] = (None, self)"
| "pass_group_arg_v_to_a pass self ((key, arg) # argv_dict) =
     (case map_of (group_dict self) key of
        None \<Rightarrow> (Some (KeyError_no_group key), self)
      | Some g \<Rightarrow>
          (case pass g arg of
             (Some e, g') \<Rightarrow>
               (Some e, self\<lparr>group_dict := AList.update key g' (group_dict self)\<rparr>)
           | (None, g') \<Rightarrow>
               pass_group_arg_v_to_a pass
                 (self\<lparr>group_dict := AList.update key g' (group_dict self)\<rparr>) argv_dict))"

section \<open>Ancestor chains, forward kinematics and the symbolic chain\<close>

text \<open>
  The loop \<open>while current_parent != current_key\<close> of \<open>forward_kinematics\<close> (lines
  274-278) and of \<open>Robot.get_symbolic_rep\<close> (lines 155-159). Nothing bounds the number
  of its iterations, so it is a partial function: \<open>None\<close> means that the loop does not
  return.
\<close>

partial_function (option) ancestor_loop ::
  "(string \<times> 'x group) list \<Rightarrow> string \<Rightarrow> string \<Rightarrow> string list \<Rightarrow> (error + string list) option"
where
  "ancestor_loop gd current_parent current_key group_key_list =
     (if current_parent \<noteq> current_key then
        (case map_of gd current_parent of
           None \<Rightarrow> Some (Inl (KeyError_missing current_parent))
         | Some next_group \<Rightarrow>
             ancestor_loop gd (parent next_group) current_parent
               (group_key_list @ [current_parent]))
      else Some (Inr group_key_list))"

text \<open>Lines 281-284: the matrices of the groups of the reversed key list are multiplied
  from the right onto the running product.\<close>

fun multiply_loop ::
  "('m \<Rightarrow> 'm \<Rightarrow> 'm) \<Rightarrow> ('x group \<Rightarrow> 'm) \<Rightarrow> (string \<times> 'x group) list \<Rightarrow> string list \<Rightarrow> 'm
     \<Rightarrow> error + 'm"
where
  "multiply_loop matmul get_transformation_matrix gd [] transformation = Inr transformation"
| "multiply_loop matmul get_transformation_matrix gd (group_key # keys) transformation =
     (case map_of gd group_key of
        None \<Rightarrow> Inl (KeyError_missing group_key)
      | Some g \<Rightarrow>
          multiply_loop matmul get_transformation_matrix gd keys
            (matmul transformation (get_transformation_matrix g)))"

text \<open>
  \<open>forward_kinematics\<close> (lines 266-285). The matrix algebra is not part of the module:
  \<open>identity_transformation\<close> is the value of \<open>identity_transformation()\<close>, \<open>matmul\<close> is
  the operator \<open>@\<close>, and \<open>get_transformation_matrix\<close> reads the matrix of a group at
  its current state.
\<close>

definition forward_kinematics ::
  "'m \<Rightarrow> ('m \<Rightarrow> 'm \<Rightarrow> 'm) \<Rightarrow> ('x group \<Rightarrow> 'm) \<Rightarrow> 'x robot \<Rightarrow> string \<Rightarrow> (error + 'm) option"
where
  "forward_kinematics identity_transformation matmul get_transformation_matrix robot endeffector =
     (case map_of (group_dict robot) endeffector of
        None \<Rightarrow> Some (Inl KeyError_endeffector)
      | Some endeff_group \<Rightarrow>
          (case ancestor_loop (group_dict robot) (parent endeff_group) endeffector [endeffector] of
             None \<Rightarrow> None
           | Some (Inl e) \<Rightarrow> Some (Inl e)
           | Some (Inr group_key_list) \<Rightarrow>
               Some (multiply_loop matmul get_transformation_matrix (group_dict robot)
                       (rev group_key_list) identity_transformation)))"

text \<open>
  \<open>Robot.get_symbolic_rep\<close> (lines 141-185), as far as it does not depend on the
  symbolic engine: the list \<open>symbolic_keys\<close> of (transformation, parameter) pairs, one
  for every state variable of every transformation along the chain.
\<close>

fun symbolic_keys_loop ::
  "(string \<times> 'x group) list \<Rightarrow> string list \<Rightarrow> (string \<times> string) list
     \<Rightarrow> error + (string \<times> string) list"
where
  "symbolic_keys_loop gd [] symbolic_keys = Inr symbolic_keys"
| "symbolic_keys_loop gd (group_key # keys) symbolic_keys =
     (case map_of gd group_key of
        None \<Rightarrow> Inl (KeyError_missing group_key)
      | Some g \<Rightarrow>
          symbolic_keys_loop gd keys
            (symbolic_keys @
               concat (map (\<lambda>t. map (\<lambda>(key, v). (t_name t, key)) (t_state t))
                         (virtual_transformations g))))"

definition get_symbolic_rep ::
  "'x robot \<Rightarrow> string \<Rightarrow> (error + (string \<times> string) list) option"
where
  "get_symbolic_rep self endeffector =
     (case map_of (group_dict self) endeffector of
        None \<Rightarrow> Some (Inl KeyError_endeffector)
      | Some endeff_group \<Rightarrow>
          (case ancestor_loop (group_dict self) (parent endeff_group) endeffector [endeffector] of
             None \<Rightarrow> None
           | Some (Inl e) \<Rightarrow> Some (Inl e)
           | Some (Inr group_key_list) \<Rightarrow>
               Some (symbolic_keys_loop (group_dict self) (rev group_key_list) [])))"

section \<open>\<open>SimpleInvKinSolver\<close>\<close>

text \<open>
  The optimisation engine is not part of the module. The compiled problem
  \<open>self.inv_kin_solver\<close> is a function of the initial guess \<open>x0\<close> and the target
  \<open>p\<close> that either raises or returns a solution: its entry \<open>'x'\<close>, the value \<open>'f'\<close> of
  the objective there (the squared distance between the end effector and the target),
  and whether the engine reports success.
\<close>

record nlp_solution =
  sol_x :: "real list"
  sol_f :: real
  sol_success :: bool

type_synonym nlp_solver = "real list \<Rightarrow> real list \<Rightarrow> error + nlp_solution"

text \<open>
  Robots are objects: the solver holds a reference to one. The store is the list of
  all robot objects, a reference is a position in it, and \<open>deepcopy\<close> appends a copy.
  A reference that a caller holds always points into the store.
\<close>

record solver =
  symbolic_keys :: "(string \<times> string) list"
  solver_endeffector :: string
  solver_robot :: nat
  inv_kin_solver :: "nlp_solver option"

text \<open>
  \<open>SimpleInvKinSolver.__init__\<close> (lines 194-210). \<open>nlpsol\<close> is the problem the engine
  compiles from the symbolic chain; with \<open>orientation\<close> set the attribute
  \<open>inv_kin_solver\<close> is never assigned.
\<close>

definition SimpleInvKinSolver_init ::
  "nlp_solver \<Rightarrow> 'x robot list \<Rightarrow> nat \<Rightarrow> string \<Rightarrow> bool \<Rightarrow> bool
     \<Rightarrow> (error + 'x robot list \<times> solver) option"
where
  "SimpleInvKinSolver_init nlpsol store robot endeff orientation update_robot =
     (case get_symbolic_rep (store ! robot) endeff of
        None \<Rightarrow> None
      | Some (Inl e) \<Rightarrow> Some (Inl e)
      | Some (Inr keys) \<Rightarrow>
          (let (store', r) = (if update_robot then (store, robot)
                              else (store @ [store ! robot], length store))
           in Some (Inr (store',
                \<lparr> symbolic_keys = keys, solver_endeffector = endeff, solver_robot = r,
                  inv_kin_solver = (if orientation = False then Some nlpsol else None) \<rparr>))))"

text \<open>\<open>_virtual_to_solver_state\<close> (lines 251-254).\<close>

fun virtual_to_solver_loop ::
  "(string \<times> string) list \<Rightarrow> virtual_state \<Rightarrow> real list \<Rightarrow> error + real list"
where
  "virtual_to_solver_loop [] tip solver_state = Inr solver_state"
| "virtual_to_solver_loop ((outer_key, inner_key) # keys) tip solver_state =
     (case map_of tip outer_key of
        None \<Rightarrow> Inl (KeyError_missing outer_key)
      | Some d \<Rightarrow>
          (case map_of d inner_key of
             None \<Rightarrow> Inl (KeyError_missing inner_key)
           | Some v \<Rightarrow> virtual_to_solver_loop keys tip (solver_state @ [v])))"

definition virtual_to_solver_state :: "solver \<Rightarrow> virtual_state \<Rightarrow> error + real list" where
  "virtual_to_solver_state self tip = virtual_to_solver_loop (symbolic_keys self) tip []"

text \<open>\<open>_solver_to_virtual_state\<close> (lines 239-248): entry \<open>i\<close> of the solution goes to
  the key pair \<open>i\<close>; a solution longer than the key list runs off the list.\<close>

fun solver_to_virtual_loop ::
  "(string \<times> string) list \<Rightarrow> real list \<Rightarrow> virtual_state \<Rightarrow> error + virtual_state"
where
  "solver_to_virtual_loop keys [] vs = Inr vs"
| "solver_to_virtual_loop [] (x # xs) vs = Inl IndexError"
| "solver_to_virtual_loop ((outer_key, inner_key) # keys) (x # xs) vs =
     (let sub = (case map_of vs outer_key of None \<Rightarrow> [] | Some s \<Rightarrow> s)
      in solver_to_virtual_loop keys xs
           (AList.update outer_key (AList.update inner_key x sub) vs))"

definition solver_to_virtual_state :: "solver \<Rightarrow> real list \<Rightarrow> error + virtual_state" where
  "solver_to_virtual_state self solver_state =
     solver_to_virtual_loop (symbolic_keys self) solver_state []"

text \<open>\<open>solve_virtual\<close>, lines 213-216: the initial state \<open>x0\<close> of the solver.\<close>

definition initial_state :: "solver \<Rightarrow> virtual_state option \<Rightarrow> error + real list" where
  "initial_state self initial_tip =
     (case initial_tip of
        None \<Rightarrow> Inr (replicate (length (symbolic_keys self)) 0)
      | Some tip \<Rightarrow> virtual_to_solver_state self tip)"

text \<open>\<open>solve_virtual\<close>, lines 217-220: the comparison of the two lengths, then the
  call of the compiled solver.\<close>

definition solve_with_initial_state ::
  "solver \<Rightarrow> real list \<Rightarrow> real list \<Rightarrow> error + virtual_state"
where
  "solve_with_initial_state self target x0 =
     (if length x0 \<noteq> length (symbolic_keys self) then
        Inl (RuntimeError_initial_state (length x0) (length (symbolic_keys self)))
      else
        (case inv_kin_solver self of
           None \<Rightarrow> Inl AttributeError
         | Some solve \<Rightarrow>
             (case solve x0 target of
                Inl e \<Rightarrow> Inl e
              | Inr solution \<Rightarrow> solver_to_virtual_state self (sol_x solution))))"

text \<open>\<open>solve_virtual\<close> (lines 213-220).\<close>

definition solve_virtual ::
  "solver \<Rightarrow> real list \<Rightarrow> virtual_state option \<Rightarrow> error + virtual_state"
where
  "solve_virtual self target initial_tip =
     (case initial_state self initial_tip of
        Inl e \<Rightarrow> Inl e
      | Inr x0 \<Rightarrow> solve_with_initial_state self target x0)"

text \<open>\<open>solve_actuated\<close> (lines 223-229): the result of the call and the store it leaves.\<close>

definition solve_actuated ::
  "('x, virtual_state) group_method \<Rightarrow> ('x, 'a) group_method \<Rightarrow> 'x robot list \<Rightarrow> solver
     \<Rightarrow> real list \<Rightarrow> virtual_state option \<Rightarrow> (string \<times> 'a) list option
     \<Rightarrow> (error + actuated_state) \<times> 'x robot list"
where
  "solve_actuated set_v pass store self target initial_tip mapping_argument =
     (case solve_virtual self target initial_tip of
        Inl e \<Rightarrow> (Inl e, store)
      | Inr vs \<Rightarrow>
          (case (case mapping_argument of
                   None \<Rightarrow> (None, store ! solver_robot self)
                 | Some argv_dict \<Rightarrow>
                     pass_group_arg_v_to_a pass (store ! solver_robot self) argv_dict) of
             (Some e, r) \<Rightarrow> (Inl e, store[solver_robot self := r])
           | (None, r) \<Rightarrow>
               (case set_virtual_state set_v r vs of
                  (Some e, r') \<Rightarrow> (Inl e, store[solver_robot self := r'])
                | (None, r') \<Rightarrow>
                    (Inr (get_actuated_state r'), store[solver_robot self := r']))))"

section \<open>Calls of a client\<close>

text \<open>
  \<open>forward_kinematics\<close> once more (lines 266-285), now with what it may change. The
  function assigns only to its local variables; the one call into code outside the
  module that receives an object of the robot is \<open>group.get_transformation_matrix()\<close>
  in line 283. Here that call returns the matrix together with the group as the call
  leaves it, and the group table of the robot is carried through the loop.
\<close>

type_synonym ('x, 'm) group_getter = "'x group \<Rightarrow> 'm \<times> 'x group"

fun multiply_loop_calls ::
  "('m \<Rightarrow> 'm \<Rightarrow> 'm) \<Rightarrow> ('x, 'm) group_getter \<Rightarrow> 'x robot \<Rightarrow> string list \<Rightarrow> 'm
     \<Rightarrow> (error + 'm) \<times> 'x robot"
where
  "multiply_loop_calls matmul get_matrix robot [] transformation = (Inr transformation, robot)"
| "multiply_loop_calls matmul get_matrix robot (group_key # keys) transformation =
     (case map_of (group_dict robot) group_key of
        None \<Rightarrow> (Inl (KeyError_missing group_key), robot)
      | Some g \<Rightarrow>
          (case get_matrix g of
             (hmt, g') \<Rightarrow>
               multiply_loop_calls matmul get_matrix
                 (robot\<lparr>group_dict := AList.update group_key g' (group_dict robot)\<rparr>)
                 keys (matmul transformation hmt)))"

definition forward_kinematics_calls ::
  "'m \<Rightarrow> ('m \<Rightarrow> 'm \<Rightarrow> 'm) \<Rightarrow> ('x, 'm) group_getter \<Rightarrow> 'x robot \<Rightarrow> string
     \<Rightarrow> ((error + 'm) \<times> 'x robot) option"
where
  "forward_kinematics_calls identity_transformation matmul get_matrix robot endeffector =
     (case map_of (group_dict robot) endeffector of
        None \<Rightarrow> Some (Inl KeyError_endeffector, robot)
      | Some endeff_group \<Rightarrow>
          (case ancestor_loop (group_dict robot) (parent endeff_group) endeffector [endeffector] of
             None \<Rightarrow> None
           | Some (Inl e) \<Rightarrow> Some (Inl e, robot)
           | Some (Inr group_key_list) \<Rightarrow>
               Some (multiply_loop_calls matmul get_matrix robot
                       (rev group_key_list) identity_transformation)))"

text \<open>
  What a client of a robot can call, and what a call returns together with the robot
  it leaves behind. \<open>None\<close> is a call that does not return.
\<close>

datatype api_call =
    Forward_kinematics string
  | Get_actuated_state
  | Get_virtual_state
  | Set_actuated_state actuated_state
  | Set_virtual_state virtual_state

datatype 'm returned =
    Matrix 'm
  | Actuated actuated_state
  | Virtual virtual_state
  | Nothing
  | Exception error

fun is_read :: "api_call \<Rightarrow> bool" where
  "is_read (Set_actuated_state s) = False"
| "is_read (Set_virtual_state s) = False"
| "is_read c = True"

record ('x, 'm) collaborators =
  env_identity :: 'm
  env_matmul :: "'m \<Rightarrow> 'm \<Rightarrow> 'm"
  env_matrix :: "('x, 'm) group_getter"
  env_set_actuated :: "('x, actuated_state) group_method"
  env_set_virtual :: "('x, virtual_state) group_method"

fun call :: "('x, 'm) collaborators \<Rightarrow> 'x robot \<Rightarrow> api_call \<Rightarrow> ('m returned \<times> 'x robot) option"
where
  "call env robot (Forward_kinematics target) =
     (case forward_kinematics_calls (env_identity env) (env_matmul env)
             (env_matrix env) robot target of
        None \<Rightarrow> None
      | Some (Inl e, robot') \<Rightarrow> Some (Exception e, robot')
      | Some (Inr m, robot') \<Rightarrow> Some (Matrix m, robot'))"
| "call env robot Get_actuated_state = Some (Actuated (get_actuated_state robot), robot)"
| "call env robot Get_virtual_state = Some (Virtual (get_virtual_state robot), robot)"
| "call env robot (Set_actuated_state s) =
     (case set_actuated_state (env_set_actuated env) robot s of
        (Some e, robot') \<Rightarrow> Some (Exception e, robot')
      | (None, robot') \<Rightarrow> Some (Nothing, robot'))"
| "call env robot (Set_virtual_state s) =
     (case set_virtual_state (env_set_virtual env) robot s of
        (Some e, robot') \<Rightarrow> Some (Exception e, robot')
      | (None, robot') \<Rightarrow> Some (Nothing, robot'))"

fun calls ::
  "('x, 'm) collaborators \<Rightarrow> 'x robot \<Rightarrow> api_call list \<Rightarrow> ('m returned list \<times> 'x robot) option"
where
  "calls env robot [] = Some ([], robot)"
| "calls env robot (c # cs) =
     (case call env robot c of
        None \<Rightarrow> None
      | Some (r, robot') \<Rightarrow>
          (case calls env robot' cs of
             None \<Rightarrow> None
           | Some (rs, robot'') \<Rightarrow> Some (r # rs, robot'')))"

section \<open>The properties in the words of the specification\<close>

text \<open>
  An ancestor chain, listed from the target up to the root: every group of the list is
  registered, the parent of each is the next one and differs from it, and the last one
  is its own parent.
\<close>

fun chain_to_root :: "(string \<times> 'x group) list \<Rightarrow> string list \<Rightarrow> bool" where
  "chain_to_root gd [] = False"
| "chain_to_root gd [k] = (case map_of gd k of None \<Rightarrow> False | Some g \<Rightarrow> parent g = k)"
| "chain_to_root gd (k # k' # ks) =
     (case map_of gd k of
        None \<Rightarrow> False
      | Some g \<Rightarrow> parent g = k' \<and> k' \<noteq> k \<and> chain_to_root gd (k' # ks))"

section \<open>Example robots\<close>

definition example_group :: "string \<Rightarrow> string \<Rightarrow> 'x group" where
  "example_group n p =
     \<lparr> name = n, parent = p, virtual_transformations = [], virtual_state = [],
       actuated_state = [], internal = None \<rparr>"

definition example_robot :: "(string \<times> string) list \<Rightarrow> 'x robot" where
  "example_robot links =
     \<lparr> group_dict = map (\<lambda>(n, p). (n, example_group n p)) links,
       actuator_group_mapping = [], virtual_group_mapping = [] \<rparr>"

text \<open>A robot of one open group around one transformation with one state variable.\<close>

definition joint :: transformation where
  "joint = \<lparr> t_name = ''joint'', t_state = [(''ry'', 0)] \<rparr>"

definition one_joint_robot :: "'x robot" where
  "one_joint_robot =
     \<lparr> group_dict = [(''joint'', OpenKinematicGroup ''joint'' [joint] None)],
       actuator_group_mapping = [(''joint_ry'', ''joint'')],
       virtual_group_mapping = [(''joint'', ''joint'')] \<rparr>"

text \<open>A group method that records the arguments of its calls in the private data of
  the group, and one that raises.\<close>

definition recording :: "('a list, 'a) group_method" where
  "recording g arg =
     (None, g\<lparr>internal := Some ((case internal g of None \<Rightarrow> [] | Some l \<Rightarrow> l) @ [arg])\<rparr>)"

definition refusing :: "('x, 'a) group_method" where
  "refusing g arg = (Some (Raised ''refused''), g)"

text \<open>A matrix getter that only reads the name of the group, and one that also leaves
  a mark in the private data of the group.\<close>

definition reading_name :: "('x, string) group_getter" where
  "reading_name g = (name g, g)"

definition marking_name :: "(unit, string) group_getter" where
  "marking_name g = (name g, g\<lparr>internal := Some ()\<rparr>)"

text \<open>
  A compiled problem that returns an iterate which is not at the target (the objective
  is 4) and reports no success, and one that raises.
\<close>

definition stalled_nlpsol :: nlp_solver where
  "stalled_nlpsol x0 p = Inr \<lparr> sol_x = map (\<lambda>x. x + 1) x0, sol_f = 4, sol_success = False \<rparr>"

definition raising_nlpsol :: nlp_solver where
  "raising_nlpsol x0 p = Inl (Raised ''no convergence'')"

definition joint_solver :: "nlp_solver \<Rightarrow> nat \<Rightarrow> solver" where
  "joint_solver nlpsol r =
     \<lparr> symbolic_keys = [(''joint'', ''ry'')], solver_endeffector = ''joint'',
       solver_robot = r, inv_kin_solver = Some nlpsol \<rparr>"

text \<open>A robot of one group that owns two virtual keys and two actuator keys.\<close>

definition arm :: "'x group" where
  "arm =
     \<lparr> name = ''arm'', parent = ''arm'', virtual_transformations = [],
       virtual_state = [(''shoulder'', [(''ry'', 0)]), (''elbow'', [(''ry'', 0)])],
       actuated_state = [(''shoulder_ry'', 0), (''elbow_ry'', 0)],
       internal = None \<rparr>"

definition arm_robot :: "'x robot" where
  "arm_robot =
     \<lparr> group_dict = [(''arm'', arm)],
       actuator_group_mapping = [(''shoulder_ry'', ''arm''), (''elbow_ry'', ''arm'')],
       virtual_group_mapping = [(''shoulder'', ''arm''), (''elbow'', ''arm'')] \<rparr>"

section \<open>The elements of a kinematic chain as groups\<close>

text \<open>
  The group that the constructor registers for an element of its list, up to the parent
  reference: the element itself, or the open group around a bare transformation.
\<close>

fun group_of :: "'x element \<Rightarrow> 'x group" where
  "group_of (KinematicGroup g) = g"
| "group_of (Transformation t) = OpenKinematicGroup (t_name t) [t] None"

fun is_Transformation :: "'x element \<Rightarrow> bool" where
  "is_Transformation (Transformation t) = True"
| "is_Transformation (KinematicGroup g) = False"

text \<open>A root group that declares the actuator \<open>motor\<close>, with a given virtual state.\<close>

definition motor_group :: "string \<Rightarrow> virtual_state \<Rightarrow> 'x group" where
  "motor_group n vs =
     \<lparr> name = n, parent = n, virtual_transformations = [], virtual_state = vs,
       actuated_state = [(''motor'', 0)], internal = None \<rparr>"

text \<open>
  The group that the specification expects in the group table for position \<open>i\<close> of the
  list: a group as it is, a bare transformation as a singleton open group whose parent
  is the element before it, and a root at position 0.
\<close>

definition wrapped :: "'x element list \<Rightarrow> nat \<Rightarrow> 'x group" where
  "wrapped kinematic_chain i =
     (case kinematic_chain ! i of
        KinematicGroup g \<Rightarrow> g
      | Transformation t \<Rightarrow>
          (OpenKinematicGroup (t_name t) [t] None)
            \<lparr>parent := (if i = 0 then t_name t else str (kinematic_chain ! (i - 1)))\<rparr>)"

text \<open>
  The construction in the words of the specification, after the first \<open>n\<close> positions
  of the list: the notices printed so far, one for every bare transformation; the group
  table, into which the group of every position has been entered under its name, in the
  order of the list; and the two maps, which send every key declared by a group with a
  non-empty virtual state to the name of that group. The list is free of naming
  conflicts up to \<open>n\<close> when no key occurs twice among the keys declared so far.
\<close>

definition notices_upto :: "'x element list \<Rightarrow> nat \<Rightarrow> string list" where
  "notices_upto kinematic_chain n =
     map (warning kinematic_chain)
       (filter (\<lambda>k. is_Transformation (kinematic_chain ! k)) [0..<n])"

definition declared ::
  "('x group \<Rightarrow> string list) \<Rightarrow> 'x element list \<Rightarrow> nat \<Rightarrow> (string \<times> string) list"
where
  "declared keys_of kinematic_chain n =
     concat (map (\<lambda>i. if virtual_state (wrapped kinematic_chain i) \<noteq> []
                       then map (\<lambda>k. (k, str (kinematic_chain ! i)))
                              (keys_of (wrapped kinematic_chain i))
                       else [])
               [0..<n])"

definition constructed :: "'x element list \<Rightarrow> nat \<Rightarrow> 'x robot" where
  "constructed kinematic_chain n =
     \<lparr> group_dict =
         foldl (\<lambda>gd i. AList.update (str (kinematic_chain ! i)) (wrapped kinematic_chain i) gd)
           [] [0..<n],
       actuator_group_mapping = declared (map fst \<circ> actuated_state) kinematic_chain n,
       virtual_group_mapping = declared (map fst \<circ> virtual_state) kinematic_chain n \<rparr>"

definition conflict_free :: "'x element list \<Rightarrow> nat \<Rightarrow> bool" where
  "conflict_free kinematic_chain n =
     (distinct (map fst (declared (map fst \<circ> actuated_state) kinematic_chain n))
      \<and> distinct (map fst (declared (map fst \<circ> virtual_state) kinematic_chain n)))"

text \<open>A chain of two bare transformations.\<close>

definition base :: transformation where
  "base = \<lparr> t_name = ''base'', t_state = [] \<rparr>"

definition two_link_chain :: "unit element list" where
  "two_link_chain = [Transformation base, Transformation joint]"

section \<open>Ancestor-chain resolution\<close>

text \<open>
  If the loop returns, it was not started inside a set of registered groups that is
  closed under the parent link and holds no root.
\<close>

lemma ancestor_loop_some:
  assumes run: "ancestor_loop gd cp ck l = Some y"
  shows "(\<forall>k\<in>S. \<exists>g. map_of gd k = Some g \<and> parent g \<in> S \<and> parent g \<noteq> k) \<longrightarrow>
         \<not> (cp \<in> S \<and> cp \<noteq> ck)"
proof (rule ancestor_loop.raw_induct
    [where P = "\<lambda>gd cp ck l y.
        (\<forall>k\<in>S. \<exists>g. map_of gd k = Some g \<and> parent g \<in> S \<and> parent g \<noteq> k) \<longrightarrow>
        \<not> (cp \<in> S \<and> cp \<noteq> ck)", OF _ run])
  fix loop :: "(string \<times> 'a group) list \<Rightarrow> string \<Rightarrow> string \<Rightarrow> string list \<Rightarrow> (error + string list) option"
  fix gd cp ck l y
  assume IH: "\<And>gd cp ck l y. loop gd cp ck l = Some y \<Longrightarrow>
      (\<forall>k\<in>S. \<exists>g. map_of gd k = Some g \<and> parent g \<in> S \<and> parent g \<noteq> k) \<longrightarrow>
      \<not> (cp \<in> S \<and> cp \<noteq> ck)"
    and body: "(if cp \<noteq> ck then
                  (case map_of gd cp of
                     None \<Rightarrow> Some (Inl (KeyError_missing cp))
                   | Some next_group \<Rightarrow> loop gd (parent next_group) cp (l @ [cp]))
                else Some (Inr l)) = Some y"
  show "(\<forall>k\<in>S. \<exists>g. map_of gd k = Some g \<and> parent g \<in> S \<and> parent g \<noteq> k) \<longrightarrow>
        \<not> (cp \<in> S \<and> cp \<noteq> ck)"
  proof (intro impI notI)
    assume closed: "\<forall>k\<in>S. \<exists>g. map_of gd k = Some g \<and> parent g \<in> S \<and> parent g \<noteq> k"
      and inv: "cp \<in> S \<and> cp \<noteq> ck"
    then obtain g where g: "map_of gd cp = Some g" "parent g \<in> S" "parent g \<noteq> cp"
      by blast
    from body inv g have "loop gd (parent g) cp (l @ [cp]) = Some y"
      by simp
    from IH [OF this] closed g show False by simp
  qed
qed

lemma ancestor_loop_cycle:
  assumes "\<forall>k\<in>S. \<exists>g. map_of gd k = Some g \<and> parent g \<in> S \<and> parent g \<noteq> k"
    and "current_parent \<in> S" "current_parent \<noteq> current_key"
  shows "ancestor_loop gd current_parent current_key group_key_list = None"
  using ancestor_loop_some [of gd current_parent current_key group_key_list _ S] assms
  by (cases "ancestor_loop gd current_parent current_key group_key_list") auto

lemma ancestor_loop_chain:
  "chain_to_root gd (k # ks) \<Longrightarrow> map_of gd k = Some g \<Longrightarrow>
   ancestor_loop gd (parent g) k acc = Some (Inr (acc @ ks))"
proof (induction ks arbitrary: k g acc)
  case Nil
  then show ?case by (simp add: ancestor_loop.simps)
next
  case (Cons k' ks)
  from Cons.prems have p: "parent g = k'" "k' \<noteq> k" and c: "chain_to_root gd (k' # ks)"
    by simp_all
  from c obtain g' where g': "map_of gd k' = Some g'"
    by (cases ks) (auto split: option.splits)
  from Cons.IH [OF c g', of "acc @ [k']"] p g' show ?case
    by (subst ancestor_loop.simps) simp
qed

lemma chain_to_root_registered:
  "chain_to_root gd ks \<Longrightarrow> k \<in> set ks \<Longrightarrow> map_of gd k \<noteq> None"
  by (induction gd ks rule: chain_to_root.induct) (auto split: option.splits)

lemma multiply_loop_foldl:
  "\<forall>k\<in>set ks. map_of gd k \<noteq> None \<Longrightarrow>
   multiply_loop matmul M gd ks t = Inr (foldl matmul t (map (\<lambda>k. M (the (map_of gd k))) ks))"
  by (induction ks arbitrary: t) auto


text \<open>
  C1 (amended). For every robot in which the parent links, followed from the target,
  stay among registered groups none of which is its own parent (a cycle that never
  reaches a root), ancestor-chain resolution does not terminate, in
  \<open>forward_kinematics\<close> as in \<open>Robot.get_symbolic_rep\<close>: the loop has no depth
  guard, and no topology error is raised.
\<close>

theorem ancestor_resolution_cycle_diverges:
  assumes "\<forall>k\<in>S. \<exists>g. map_of (group_dict robot) k = Some g \<and> parent g \<in> S \<and> parent g \<noteq> k"
    and "target \<in> S"
  shows "forward_kinematics ident mm M robot target = None
         \<and> get_symbolic_rep robot target = None"
proof -
  from assms obtain g where g: "map_of (group_dict robot) target = Some g"
    "parent g \<in> S" "parent g \<noteq> target"
    by blast
  have "ancestor_loop (group_dict robot) (parent g) target [target] = None"
    using assms(1) g(2,3) by (rule ancestor_loop_cycle)
  with g(1) show ?thesis
    by (simp add: forward_kinematics_def get_symbolic_rep_def)
qed

theorem ancestor_resolution_cycle_diverges_witness:
  "map (\<lambda>(k, g). (k, parent g))
     (group_dict (example_robot [(''X'', ''Y''), (''Y'', ''Z''), (''Z'', ''X'')] :: unit robot))
     = [(''X'', ''Y''), (''Y'', ''Z''), (''Z'', ''X'')]
   \<and> forward_kinematics [] append name
        (example_robot [(''X'', ''Y''), (''Y'', ''Z''), (''Z'', ''X'')] :: unit robot) ''X'' = None
   \<and> get_symbolic_rep
        (example_robot [(''X'', ''Y''), (''Y'', ''Z''), (''Z'', ''X'')] :: unit robot) ''X'' = None"
proof -
  have closed: "\<forall>k\<in>{''X'', ''Y'', ''Z''}. \<exists>g.
       map_of (group_dict (example_robot [(''X'', ''Y''), (''Y'', ''Z''), (''Z'', ''X'')] :: unit robot)) k
         = Some g
       \<and> parent g \<in> {''X'', ''Y'', ''Z''} \<and> parent g \<noteq> k"
    by (simp add: example_robot_def example_group_def)
  have start: "''X'' \<in> {''X'', ''Y'', ''Z''}" by simp
  from ancestor_resolution_cycle_diverges [OF closed start, of "[]" append name]
  show ?thesis by (simp add: example_robot_def example_group_def)
qed

text \<open>
  C1 as stated fails: in the robot of the two groups \<open>A\<close> and \<open>B\<close>, each the parent of
  the other, neither call returns, so neither raises an error.
\<close>

theorem ancestor_resolution_cycle_counterexample:
  "forward_kinematics [] append name
     (example_robot [(''A'', ''B''), (''B'', ''A'')] :: unit robot) ''A'' = None
   \<and> get_symbolic_rep (example_robot [(''A'', ''B''), (''B'', ''A'')] :: unit robot) ''A'' = None"
proof -
  have "ancestor_loop (group_dict (example_robot [(''A'', ''B''), (''B'', ''A'')] :: unit robot))
          ''B'' ''A'' [''A''] = None"
    by (rule ancestor_loop_cycle [where S = "{''A'', ''B''}"])
       (simp_all add: example_robot_def example_group_def)
  then show ?thesis
    by (simp add: forward_kinematics_def get_symbolic_rep_def example_robot_def example_group_def)
qed

section \<open>Forward kinematics\<close>

text \<open>
  C3. For every robot and target group whose ancestor chain resolves to \<open>G1\<close> (the
  root), ..., \<open>Gn\<close> (the target), \<open>forward_kinematics\<close> returns the product
  \<open>identity \<cdot> M(G1) \<cdot> ... \<cdot> M(Gn)\<close> of the groups' transformation matrices at the
  current state, multiplied in base-to-target order.
\<close>

theorem forward_kinematics_product:
  assumes "chain_to_root (group_dict robot) (rev path)"
  shows "forward_kinematics ident mm M robot (last path) =
         Some (Inr (foldl mm ident (map (\<lambda>k. M (the (map_of (group_dict robot) k))) path)))"
proof -
  from assms obtain k ks where rp: "rev path = k # ks"
    by (cases "rev path") auto
  then have path: "path = rev ks @ [k]" by (metis rev_rev_ident rev.simps(2))
  from assms rp obtain g where g: "map_of (group_dict robot) k = Some g"
    by (cases ks) (auto split: option.splits)
  have reg: "\<forall>x\<in>set path. map_of (group_dict robot) x \<noteq> None"
    using chain_to_root_registered [OF assms] by simp
  from assms rp have "ancestor_loop (group_dict robot) (parent g) k [k] = Some (Inr ([k] @ ks))"
    using ancestor_loop_chain [OF _ g] by simp
  then show ?thesis
    using g path multiply_loop_foldl [OF reg] by (simp add: forward_kinematics_def)
qed

theorem forward_kinematics_product_witness:
  "chain_to_root
     (group_dict (example_robot [(''A'', ''A''), (''B'', ''A''), (''C'', ''B'')] :: unit robot))
     (rev [''A'', ''B'', ''C''])
   \<and> forward_kinematics [] append name
       (example_robot [(''A'', ''A''), (''B'', ''A''), (''C'', ''B'')] :: unit robot) ''C''
     = Some (Inr ''ABC'')"
proof -
  have chain: "chain_to_root
     (group_dict (example_robot [(''A'', ''A''), (''B'', ''A''), (''C'', ''B'')] :: unit robot))
     (rev [''A'', ''B'', ''C''])"
    by (simp add: example_robot_def example_group_def)
  from forward_kinematics_product [OF chain, of "[]" append name] chain
  show ?thesis by (simp add: example_robot_def example_group_def)
qed

section \<open>Inverse kinematics: the initial guess and the solver's answer\<close>

text \<open>
  The flat vector that \<open>_virtual_to_solver_state\<close> builds has one entry for every key
  pair, whatever the guess holds: the comparison of the two lengths in \<open>solve_virtual\<close>
  (line 217) never fails.
\<close>

lemma virtual_to_solver_loop_length:
  "virtual_to_solver_loop keys tip acc = Inr x0 \<Longrightarrow> length x0 = length acc + length keys"
  by (induction keys tip acc rule: virtual_to_solver_loop.induct) (auto split: option.splits)

lemma virtual_to_solver_state_length:
  "virtual_to_solver_state self tip = Inr x0 \<Longrightarrow> length x0 = length (symbolic_keys self)"
  using virtual_to_solver_loop_length [of "symbolic_keys self" tip "[]" x0]
  by (simp add: virtual_to_solver_state_def)

lemma initial_state_length:
  "(case initial_tip of
      None \<Rightarrow> Inr (replicate (length (symbolic_keys self)) 0)
    | Some tip \<Rightarrow> virtual_to_solver_state self tip) = Inr x0 \<Longrightarrow>
   length x0 = length (symbolic_keys self)"
  by (cases initial_tip) (auto dest: virtual_to_solver_state_length)

text \<open>
  C4 (amended). \<open>solve_virtual\<close> makes no convergence or reachability check of its own:
  an exception that the compiled solver raises reaches the caller unchanged, and when
  the solver returns, its entry \<open>'x'\<close> is mapped back to a virtual state and returned,
  whatever objective value or status comes with it.
\<close>

theorem solve_virtual_no_convergence_check:
  assumes "inv_kin_solver self = Some solve"
    and "(case initial_tip of
            None \<Rightarrow> Inr (replicate (length (symbolic_keys self)) 0)
          | Some tip \<Rightarrow> virtual_to_solver_state self tip) = Inr x0"
  shows "solve_virtual self target initial_tip =
           (case solve x0 target of
              Inl e \<Rightarrow> Inl e
            | Inr solution \<Rightarrow> solver_to_virtual_state self (sol_x solution))"
  using assms initial_state_length [OF assms(2)]
  by (simp add: solve_virtual_def initial_state_def solve_with_initial_state_def)

theorem solve_virtual_no_convergence_check_witness:
  "solve_virtual (joint_solver raising_nlpsol 0) [5, 0, 0] None = Inl (Raised ''no convergence'')
   \<and> solve_virtual (joint_solver stalled_nlpsol 0) [5, 0, 0] (Some [(''joint'', [(''ry'', 2)])])
       = Inr [(''joint'', [(''ry'', 3)])]"
proof -
  have a: "inv_kin_solver (joint_solver raising_nlpsol 0) = Some raising_nlpsol"
    and b: "inv_kin_solver (joint_solver stalled_nlpsol 0) = Some stalled_nlpsol"
    by (simp_all add: joint_solver_def)
  have c: "(case None of
              None \<Rightarrow> Inr (replicate (length (symbolic_keys (joint_solver raising_nlpsol 0))) 0)
            | Some tip \<Rightarrow> virtual_to_solver_state (joint_solver raising_nlpsol 0) tip) = Inr [0]"
    by (simp add: joint_solver_def)
  have d: "(case Some [(''joint'', [(''ry'', 2)])] of
              None \<Rightarrow> Inr (replicate (length (symbolic_keys (joint_solver stalled_nlpsol 0))) 0)
            | Some tip \<Rightarrow> virtual_to_solver_state (joint_solver stalled_nlpsol 0) tip) = Inr [2]"
    by (simp add: joint_solver_def virtual_to_solver_state_def)
  from solve_virtual_no_convergence_check [OF a c, of "[5, 0, 0]"]
       solve_virtual_no_convergence_check [OF b d, of "[5, 0, 0]"]
  show ?thesis
    by (simp add: raising_nlpsol_def stalled_nlpsol_def solver_to_virtual_state_def joint_solver_def)
qed

text \<open>
  C4 as stated fails: the solver stops at an iterate whose squared distance to the
  target is 4 and reports no success, and \<open>solve_virtual\<close> returns that iterate as a
  virtual state.
\<close>

theorem solve_virtual_unreached_target_counterexample:
  "stalled_nlpsol [0] [5, 0, 0] = Inr \<lparr> sol_x = [1], sol_f = 4, sol_success = False \<rparr>
   \<and> solve_virtual (joint_solver stalled_nlpsol 0) [5, 0, 0] None = Inr [(''joint'', [(''ry'', 1)])]"
  by (simp add: solve_virtual_def initial_state_def solve_with_initial_state_def stalled_nlpsol_def solver_to_virtual_state_def joint_solver_def)



text \<open>
  The vector that \<open>_virtual_to_solver_state\<close> builds from a guess has one entry for
  every key pair (lemma \<open>virtual_to_solver_state_length\<close>). Two guesses for a problem
  with one unknown: values that match no unknown are left out, and a guess without the
  value of an unknown fails in the subscript of line 253.
\<close>

lemma solve_virtual_guess_examples:
  "solve_virtual (joint_solver stalled_nlpsol 0) [5, 0, 0]
     (Some [(''joint'', [(''ry'', 0), (''rz'', 1)]), (''other'', [(''rx'', 2)])])
     = Inr [(''joint'', [(''ry'', 1)])]
   \<and> solve_virtual (joint_solver stalled_nlpsol 0) [5, 0, 0] (Some [])
     = Inl (KeyError_missing ''joint'')"
  by (simp add: solve_virtual_def initial_state_def solve_with_initial_state_def
      stalled_nlpsol_def solver_to_virtual_state_def virtual_to_solver_state_def joint_solver_def)

section \<open>The solver's private copy\<close>

lemma solve_actuated_frame:
  "r \<noteq> solver_robot self \<Longrightarrow>
   snd (solve_actuated set_v pass store self target initial_tip mapping_argument) ! r = store ! r"
  by (auto simp: solve_actuated_def split: sum.splits prod.splits option.splits)

text \<open>
  C5. With \<open>update_robot = False\<close> the solver holds a copy of the robot under a
  reference of its own, and every call of \<open>solve_actuated\<close>, for every target, initial
  guess and mapping argument, leaves the caller's robot, and with it the virtual and
  the actuated state of the caller's robot, unchanged.
\<close>

theorem solve_actuated_private_copy:
  assumes "SimpleInvKinSolver_init nlpsol store robot endeff orientation False
             = Some (Inr (store', slv))"
    and "robot < length store"
  shows "solver_robot slv \<noteq> robot
         \<and> store' ! solver_robot slv = store ! robot
         \<and> store' ! robot = store ! robot
         \<and> snd (solve_actuated set_v pass store' slv target initial_tip mapping_argument) ! robot
             = store ! robot
         \<and> get_virtual_state
             (snd (solve_actuated set_v pass store' slv target initial_tip mapping_argument) ! robot)
             = get_virtual_state (store ! robot)
         \<and> get_actuated_state
             (snd (solve_actuated set_v pass store' slv target initial_tip mapping_argument) ! robot)
             = get_actuated_state (store ! robot)"
proof -
  from assms have slv: "solver_robot slv = length store" and store': "store' = store @ [store ! robot]"
    by (auto simp: SimpleInvKinSolver_init_def split: option.splits sum.splits)
  from slv assms(2) have ne: "robot \<noteq> solver_robot slv" by simp
  from store' assms(2) have same: "store' ! robot = store ! robot"
    by (simp add: nth_append)
  from solve_actuated_frame [OF ne, of set_v pass store' target initial_tip mapping_argument] same
  have "snd (solve_actuated set_v pass store' slv target initial_tip mapping_argument) ! robot
          = store ! robot"
    by simp
  with ne same slv store' show ?thesis by simp
qed

theorem solve_actuated_private_copy_witness:
  "SimpleInvKinSolver_init stalled_nlpsol [one_joint_robot :: virtual_state list robot] 0
      ''joint'' False False
     = Some (Inr ([one_joint_robot, one_joint_robot], joint_solver stalled_nlpsol 1))
   \<and> snd (solve_actuated recording refusing [one_joint_robot, one_joint_robot]
             (joint_solver stalled_nlpsol 1) [5, 0, 0] None (None :: (string \<times> unit) list option))
       ! 0 = one_joint_robot
   \<and> map (internal \<circ> snd) (group_dict
        (snd (solve_actuated recording refusing [one_joint_robot, one_joint_robot]
                (joint_solver stalled_nlpsol 1) [5, 0, 0] None (None :: (string \<times> unit) list option))
         ! 1))
       = [Some [[(''joint'', [(''ry'', 1)])]]]"
proof -
  have init: "SimpleInvKinSolver_init stalled_nlpsol [one_joint_robot :: virtual_state list robot] 0
      ''joint'' False False
     = Some (Inr ([one_joint_robot, one_joint_robot], joint_solver stalled_nlpsol 1))"
    by (simp add: SimpleInvKinSolver_init_def get_symbolic_rep_def one_joint_robot_def
        OpenKinematicGroup_def joint_def joint_solver_def ancestor_loop.simps)
  have len: "0 < length [one_joint_robot :: virtual_state list robot]" by simp
  have copy: "map (internal \<circ> snd) (group_dict
        (snd (solve_actuated recording refusing [one_joint_robot, one_joint_robot]
                (joint_solver stalled_nlpsol 1) [5, 0, 0] None (None :: (string \<times> unit) list option))
         ! 1))
       = [Some [[(''joint'', [(''ry'', 1)])]]]"
    by (simp add: solve_actuated_def solve_virtual_def initial_state_def solve_with_initial_state_def joint_solver_def stalled_nlpsol_def
        solver_to_virtual_state_def one_joint_robot_def OpenKinematicGroup_def joint_def
        recording_def)
  from solve_actuated_private_copy [OF init len, of recording refusing "[5, 0, 0]" None
      "None :: (string \<times> unit) list option"]
    init copy
  show ?thesis by simp
qed

text \<open>With \<open>update_robot = True\<close> the solver works on the caller's robot itself.\<close>

lemma solve_actuated_in_place_example:
  "SimpleInvKinSolver_init stalled_nlpsol [one_joint_robot :: virtual_state list robot] 0
      ''joint'' False True
     = Some (Inr ([one_joint_robot], joint_solver stalled_nlpsol 0))
   \<and> map (internal \<circ> snd) (group_dict
        (snd (solve_actuated recording refusing [one_joint_robot]
                (joint_solver stalled_nlpsol 0) [5, 0, 0] None (None :: (string \<times> unit) list option))
         ! 0))
       = [Some [[(''joint'', [(''ry'', 1)])]]]"
  by (simp add: SimpleInvKinSolver_init_def get_symbolic_rep_def one_joint_robot_def
      OpenKinematicGroup_def joint_def joint_solver_def ancestor_loop.simps
      solve_actuated_def solve_virtual_def initial_state_def solve_with_initial_state_def stalled_nlpsol_def solver_to_virtual_state_def
      recording_def)

section \<open>Forward kinematics only reads\<close>

lemma update_same:
  "map_of al k = Some v \<Longrightarrow> AList.update k v al = al"
  by (induction al) (auto split: if_splits)

lemma multiply_loop_calls_read:
  assumes "\<forall>g. snd (get_matrix g) = g"
  shows "multiply_loop_calls mm get_matrix robot keys t =
           (multiply_loop mm (fst \<circ> get_matrix) (group_dict robot) keys t, robot)"
proof (induction keys arbitrary: t)
  case Nil
  show ?case by simp
next
  case (Cons key keys)
  show ?case
  proof (cases "map_of (group_dict robot) key")
    case None
    then show ?thesis by simp
  next
    case (Some g)
    obtain hmt g' where call: "get_matrix g = (hmt, g')" by (cases "get_matrix g")
    with assms have "g' = g" by (metis snd_conv)
    with Some have "robot\<lparr>group_dict := AList.update key g' (group_dict robot)\<rparr> = robot"
      by (simp add: update_same)
    with Some call Cons.IH [of "mm t hmt"] show ?thesis by simp
  qed
qed

lemma forward_kinematics_calls_read:
  assumes "\<forall>g. snd (get_matrix g) = g"
  shows "forward_kinematics_calls ident mm get_matrix robot target =
           map_option (\<lambda>r. (r, robot)) (forward_kinematics ident mm (fst \<circ> get_matrix) robot target)"
  by (simp add: forward_kinematics_calls_def forward_kinematics_def
      multiply_loop_calls_read [OF assms] split: option.splits sum.splits)

lemma call_read:
  assumes "\<forall>g. snd (env_matrix env g) = g"
  shows "is_read c \<Longrightarrow> call env robot c = Some (r, robot') \<Longrightarrow> robot' = robot"
  by (cases c)
     (auto simp: forward_kinematics_calls_read [OF assms] split: option.splits sum.splits)

lemma calls_read:
  assumes "\<forall>g. snd (env_matrix env g) = g"
  shows "list_all is_read cs \<Longrightarrow> calls env robot cs = Some (rs, robot') \<Longrightarrow> robot' = robot"
proof (induction cs arbitrary: rs robot')
  case Nil
  then show ?case by simp
next
  case (Cons c cs)
  then show ?case
    by (auto split: option.splits prod.splits dest: call_read [OF assms])
qed

lemma calls_append:
  "calls env robot (cs @ ds) =
     (case calls env robot cs of
        None \<Rightarrow> None
      | Some (rs, robot') \<Rightarrow>
          (case calls env robot' ds of
             None \<Rightarrow> None
           | Some (rs', robot'') \<Rightarrow> Some (rs @ rs', robot'')))"
  by (induction cs arbitrary: robot) (auto split: option.splits prod.splits)

text \<open>
  C9. \<open>forward_kinematics\<close> is a function of the robot's current state and changes
  nothing. Its only call that could change an object of the robot is
  \<open>get_transformation_matrix\<close>, and that is a read. So a call of \<open>forward_kinematics\<close>
  leaves the robot as the loop of line 281 hands it on, which is the robot it was
  given, and returns what the function of the current state returns; and when a client
  calls it, then makes any reading calls (such as \<open>get_actuated_state\<close>), then calls it
  again, the robot, and with it the actuated and the virtual state, is afterwards what
  it was before, and the first and the last call return the same.
\<close>

theorem forward_kinematics_pure:
  assumes "\<forall>g. snd (env_matrix env g) = g"
    and "list_all is_read cs"
    and "calls env robot (Forward_kinematics target # cs @ [Forward_kinematics target])
           = Some (rs, robot')"
  shows "forward_kinematics_calls (env_identity env) (env_matmul env) (env_matrix env) robot target
           = map_option (\<lambda>r. (r, robot))
               (forward_kinematics (env_identity env) (env_matmul env) (fst \<circ> env_matrix env)
                  robot target)
         \<and> robot' = robot
         \<and> get_actuated_state robot' = get_actuated_state robot
         \<and> get_virtual_state robot' = get_virtual_state robot
         \<and> Some (hd rs, robot) = call env robot (Forward_kinematics target)
         \<and> Some (last rs, robot) = call env robot (Forward_kinematics target)"
proof -
  have reads: "list_all is_read (Forward_kinematics target # cs @ [Forward_kinematics target])"
    using assms(2) by simp
  from calls_read [OF assms(1) reads assms(3)] have same: "robot' = robot" .
  from assms(3) obtain r robot1 where
    r: "call env robot (Forward_kinematics target) = Some (r, robot1)"
    by (cases "call env robot (Forward_kinematics target)") auto
  from call_read [OF assms(1) _ r] have robot1: "robot1 = robot" by simp
  with assms(3) r obtain rs1 where
    rest: "calls env robot (cs @ [Forward_kinematics target]) = Some (rs1, robot')"
    and rs: "rs = r # rs1"
    by (auto split: option.splits prod.splits)
  from rest obtain rs2 robot2 where mid: "calls env robot cs = Some (rs2, robot2)"
    by (auto simp: calls_append split: option.splits)
  from calls_read [OF assms(1,2) mid] have robot2: "robot2 = robot" .
  from rest mid robot2 r robot1 have "rs1 = rs2 @ [r]"
    by (auto simp: calls_append split: option.splits prod.splits)
  with rs same r robot1 forward_kinematics_calls_read [OF assms(1)] show ?thesis by simp
qed

theorem forward_kinematics_pure_witness:
  "calls \<lparr> env_identity = [], env_matmul = append, env_matrix = reading_name,
           env_set_actuated = refusing, env_set_virtual = refusing \<rparr>
     (example_robot [(''A'', ''A''), (''B'', ''A''), (''C'', ''B'')] :: unit robot)
     [Forward_kinematics ''C'', Get_actuated_state, Get_virtual_state, Forward_kinematics ''C'']
   = Some ([Matrix ''ABC'', Actuated [], Virtual [], Matrix ''ABC''],
           example_robot [(''A'', ''A''), (''B'', ''A''), (''C'', ''B'')])"
proof -
  have read: "\<forall>g. snd (env_matrix \<lparr> env_identity = [], env_matmul = append,
           env_matrix = reading_name, env_set_actuated = refusing,
           env_set_virtual = (refusing :: (unit, virtual_state) group_method) \<rparr> g) = g"
    by (simp add: reading_name_def)
  have reads: "list_all is_read [Get_actuated_state, Get_virtual_state]" by simp
  have run: "calls \<lparr> env_identity = [], env_matmul = append, env_matrix = reading_name,
           env_set_actuated = refusing, env_set_virtual = refusing \<rparr>
     (example_robot [(''A'', ''A''), (''B'', ''A''), (''C'', ''B'')] :: unit robot)
     (Forward_kinematics ''C'' # [Get_actuated_state, Get_virtual_state] @ [Forward_kinematics ''C''])
   = Some ([Matrix ''ABC'', Actuated [], Virtual [], Matrix ''ABC''],
           example_robot [(''A'', ''A''), (''B'', ''A''), (''C'', ''B'')])"
    by (simp add: forward_kinematics_calls_def example_robot_def example_group_def
        ancestor_loop.simps get_actuated_state_def get_virtual_state_def reading_name_def)
  from forward_kinematics_pure [OF read reads run] run show ?thesis by simp
qed

text \<open>
  The statement depends on the getter being a read: with a getter that writes into the
  group, the same call of \<open>forward_kinematics\<close> leaves another robot behind.
\<close>

lemma forward_kinematics_calls_marking_example:
  "map (internal \<circ> snd) (group_dict (snd (the
      (forward_kinematics_calls [] append marking_name
         (example_robot [(''A'', ''A''), (''B'', ''A''), (''C'', ''B''), (''D'', ''A'')]) ''C''))))
   = [Some (), Some (), Some (), None]"
  by (simp add: forward_kinematics_calls_def example_robot_def example_group_def
      ancestor_loop.simps marking_name_def)

section \<open>Setting the state of the robot\<close>

lemma grouping_loop_unknown:
  "\<exists>k\<in>set (map fst state). map_of amap k = None \<Longrightarrow>
   \<exists>k\<in>set (map fst state). map_of amap k = None
        \<and> grouping_loop amap state grouping = Inl (KeyError_missing k)"
proof (induction state arbitrary: grouping)
  case Nil
  then show ?case by simp
next
  case (Cons kv state)
  obtain key val where kv: "kv = (key, val)" by (cases kv)
  show ?case
  proof (cases "map_of amap key")
    case None
    with kv show ?thesis by auto
  next
    case (Some gname)
    with Cons.prems kv have "\<exists>k\<in>set (map fst state). map_of amap k = None" by auto
    from Cons.IH [OF this] Some kv show ?thesis by (auto simp: Let_def)
  qed
qed

text \<open>
  C10. \<open>Robot.set_actuated_state\<close> is atomic with respect to unknown keys: if a key of
  the argument is not a registered actuator name, the call raises the \<open>KeyError\<close> of
  that key while it builds the grouping, and the robot is left as it was, whatever the
  setter of the groups does: no setter is called.
\<close>

theorem set_actuated_state_unknown_key:
  assumes "\<exists>k\<in>set (map fst state). map_of (actuator_group_mapping self) k = None"
  shows "\<exists>k\<in>set (map fst state). map_of (actuator_group_mapping self) k = None
           \<and> set_actuated_state set_a self state = (Some (KeyError_missing k), self)"
  using grouping_loop_unknown [OF assms, of "[]"]
  by (auto simp: set_actuated_state_def)

theorem set_actuated_state_unknown_key_witness:
  "set_actuated_state recording one_joint_robot [(''joint_ry'', 1), (''elbow'', 2)]
     = (Some (KeyError_missing ''elbow''), one_joint_robot)"
proof -
  have unknown: "\<exists>k\<in>set (map fst [(''joint_ry'', 1 :: real), (''elbow'', 2)]).
      map_of (actuator_group_mapping (one_joint_robot :: actuated_state list robot)) k = None"
    by (simp add: one_joint_robot_def)
  from set_actuated_state_unknown_key [OF unknown, of recording]
  show ?thesis by (auto simp: one_joint_robot_def)
qed

lemma update_new_key:
  "k \<notin> fst ` set al \<Longrightarrow> AList.update k v al = al @ [(k, v)]"
  by (induction al) auto

lemma set_update_subset:
  "set (AList.update k v al) \<subseteq> insert (k, v) (set al)"
  by (induction al) auto

lemma grouping_loop_batches:
  assumes "distinct (map fst state)"
    and "\<forall>k\<in>set (map fst state). map_of amap k \<noteq> None"
    and "distinct (map fst acc)"
    and "\<forall>(g, sub)\<in>set acc. fst ` set sub \<inter> fst ` set state = {}"
  shows "\<exists>grouping. grouping_loop amap state acc = Inr grouping
           \<and> distinct (map fst grouping)
           \<and> (\<forall>g. map_of grouping g =
                 (if g \<in> fst ` set acc \<or> (\<exists>k\<in>set (map fst state). map_of amap k = Some g)
                  then Some ((case map_of acc g of None \<Rightarrow> [] | Some s \<Rightarrow> s)
                             @ filter (\<lambda>(k, v). map_of amap k = Some g) state)
                  else None))"
  using assms
proof (induction state arbitrary: acc)
  case Nil
  show ?case
  proof (intro exI conjI allI)
    show "grouping_loop amap [] acc = Inr acc" by simp
    show "distinct (map fst acc)" by (rule Nil.prems(3))
    fix g
    show "map_of acc g =
         (if g \<in> fst ` set acc \<or> (\<exists>k\<in>set (map fst []). map_of amap k = Some g)
          then Some ((case map_of acc g of None \<Rightarrow> [] | Some s \<Rightarrow> s)
                     @ filter (\<lambda>(k, v). map_of amap k = Some g) [])
          else None)"
    proof -
      have "g \<in> fst ` set acc \<longleftrightarrow> map_of acc g \<noteq> None"
        by (simp add: map_of_eq_None_iff)
      then show ?thesis by (cases "map_of acc g") simp_all
    qed
  qed
next
  case (Cons kv state)
  obtain key val where kv: "kv = (key, val)" by (cases kv)
  from Cons.prems(2) kv obtain gname where gname: "map_of amap key = Some gname" by auto
  define sub where "sub = (case map_of acc gname of None \<Rightarrow> [] | Some s \<Rightarrow> s)"
  define acc' where "acc' = AList.update gname (AList.update key val sub) acc"
  have fresh: "key \<notin> fst ` set sub"
  proof (cases "map_of acc gname")
    case None
    then show ?thesis by (simp add: sub_def)
  next
    case (Some s)
    then have "(gname, s) \<in> set acc" by (rule map_of_SomeD)
    with Cons.prems(4) kv have "fst ` set s \<inter> fst ` set (kv # state) = {}" by blast
    with Some kv show ?thesis by (auto simp: sub_def)
  qed
  then have sub': "AList.update key val sub = sub @ [(key, val)]" by (rule update_new_key)
  have step: "grouping_loop amap (kv # state) acc = grouping_loop amap state acc'"
    by (simp add: kv gname sub_def acc'_def)
  have d1: "distinct (map fst state)" using Cons.prems(1) by simp
  have d2: "\<forall>k\<in>set (map fst state). map_of amap k \<noteq> None" using Cons.prems(2) by simp
  have d3: "distinct (map fst acc')" using Cons.prems(3) by (simp add: acc'_def distinct_update)
  have d4: "\<forall>(g, s)\<in>set acc'. fst ` set s \<inter> fst ` set state = {}"
  proof -
    have "fst ` set s \<inter> fst ` set state = {}" if gs: "(g, s) \<in> set acc'" for g s
    proof -
      from gs have "(g, s) = (gname, sub @ [(key, val)]) \<or> (g, s) \<in> set acc"
        using set_update_subset [of gname "sub @ [(key, val)]" acc]
        by (auto simp: acc'_def sub')
      then show ?thesis
      proof
        assume new: "(g, s) = (gname, sub @ [(key, val)])"
        have "fst ` set sub \<inter> fst ` set state = {}"
        proof (cases "map_of acc gname")
          case None
          then show ?thesis by (simp add: sub_def)
        next
          case (Some s0)
          then have "(gname, s0) \<in> set acc" by (rule map_of_SomeD)
          with Cons.prems(4) have "fst ` set s0 \<inter> fst ` set (kv # state) = {}" by blast
          with Some show ?thesis by (auto simp: sub_def)
        qed
        moreover from Cons.prems(1) kv have "key \<notin> fst ` set state" by auto
        ultimately show ?thesis using new by auto
      next
        assume "(g, s) \<in> set acc"
        with Cons.prems(4) have "fst ` set s \<inter> fst ` set (kv # state) = {}" by blast
        then show ?thesis by auto
      qed
    qed
    then show ?thesis by auto
  qed
  from Cons.IH [OF d1 d2 d3 d4] obtain grouping where
    run: "grouping_loop amap state acc' = Inr grouping"
    and dist: "distinct (map fst grouping)"
    and batches: "\<And>g. map_of grouping g =
        (if g \<in> fst ` set acc' \<or> (\<exists>k\<in>set (map fst state). map_of amap k = Some g)
         then Some ((case map_of acc' g of None \<Rightarrow> [] | Some s \<Rightarrow> s)
                    @ filter (\<lambda>(k, v). map_of amap k = Some g) state)
         else None)"
    by blast
  have dom': "fst ` set acc' = insert gname (fst ` set acc)"
    by (simp add: acc'_def dom_update)
  have look': "map_of acc' g = (if g = gname then Some (sub @ [(key, val)]) else map_of acc g)" for g
    by (simp add: acc'_def sub' update_conv')
  show ?case
  proof (intro exI conjI allI)
    show "grouping_loop amap (kv # state) acc = Inr grouping" using step run by simp
    show "distinct (map fst grouping)" by (rule dist)
    fix g
    show "map_of grouping g =
         (if g \<in> fst ` set acc \<or> (\<exists>k\<in>set (map fst (kv # state)). map_of amap k = Some g)
          then Some ((case map_of acc g of None \<Rightarrow> [] | Some s \<Rightarrow> s)
                     @ filter (\<lambda>(k, v). map_of amap k = Some g) (kv # state))
          else None)"
    proof (cases "g = gname")
      case True
      with batches [of g] dom' look' [of g] kv gname show ?thesis
        by (simp add: sub_def)
    next
      case False
      with batches [of g] dom' look' [of g] kv gname show ?thesis
        by simp
    qed
  qed
qed

lemma set_virtual_state_calls:
  "\<forall>k\<in>set (map fst state). map_of vmap k \<noteq> None \<Longrightarrow> virtual_group_mapping self = vmap \<Longrightarrow>
   set_virtual_state set_v self state =
     setter_loop set_v self (map (\<lambda>(k, v). (the (map_of vmap k), [(k, v)])) state)"
proof (induction state arbitrary: self)
  case Nil
  then show ?case by simp
next
  case (Cons kv state)
  obtain key val where kv: "kv = (key, val)" by (cases kv)
  from Cons.prems kv obtain gname where gname: "map_of vmap key = Some gname" by auto
  have rest: "\<forall>k\<in>set (map fst state). map_of vmap k \<noteq> None" using Cons.prems(1) by simp
  show ?case
  proof (cases "map_of (group_dict self) gname")
    case None
    with kv gname Cons.prems(2) show ?thesis by simp
  next
    case (Some g)
    obtain e g' where call: "set_v g [(key, val)] = (e, g')" by (cases "set_v g [(key, val)]")
    show ?thesis
    proof (cases e)
      case None
      have "virtual_group_mapping (self\<lparr>group_dict := AList.update gname g' (group_dict self)\<rparr>) = vmap"
        using Cons.prems(2) by simp
      from Cons.IH [OF rest this] kv gname Some call None Cons.prems(2) show ?thesis by simp
    next
      case (Some err)
      with kv gname \<open>map_of (group_dict self) gname = Some g\<close> call Cons.prems(2) show ?thesis
        by simp
    qed
  qed
qed

text \<open>
  What the two setters of the robot have in common, for an argument whose keys are all
  registered: \<open>Robot.set_actuated_state\<close> is its second loop run over a grouping that
  holds every owning group once, with exactly the entries that the group owns;
  \<open>Robot.set_virtual_state\<close> is the same loop run over one singleton per key.
\<close>

lemma set_state_delegation:
  assumes "distinct (map fst state)"
    and "\<forall>k\<in>set (map fst state). map_of (actuator_group_mapping self) k \<noteq> None"
    and "\<forall>k\<in>set (map fst vstate). map_of (virtual_group_mapping self) k \<noteq> None"
  shows "(\<exists>grouping.
            set_actuated_state set_a self state = setter_loop set_a self grouping
            \<and> distinct (map fst grouping)
            \<and> (\<forall>g. map_of grouping g =
                  (if \<exists>k\<in>set (map fst state). map_of (actuator_group_mapping self) k = Some g
                   then Some (filter (\<lambda>(k, v). map_of (actuator_group_mapping self) k = Some g) state)
                   else None)))
         \<and> set_virtual_state set_v self vstate =
             setter_loop set_v self
               (map (\<lambda>(k, v). (the (map_of (virtual_group_mapping self) k), [(k, v)])) vstate)"
proof -
  from grouping_loop_batches [OF assms(1,2), of "[]"] obtain grouping where
    run: "grouping_loop (actuator_group_mapping self) state [] = Inr grouping"
    and dist: "distinct (map fst grouping)"
    and batches: "\<forall>g. map_of grouping g =
        (if \<exists>k\<in>set (map fst state). map_of (actuator_group_mapping self) k = Some g
         then Some (filter (\<lambda>(k, v). map_of (actuator_group_mapping self) k = Some g) state)
         else None)"
    by auto
  from run have "set_actuated_state set_a self state = setter_loop set_a self grouping"
    by (simp add: set_actuated_state_def)
  with dist batches have "\<exists>grouping.
            set_actuated_state set_a self state = setter_loop set_a self grouping
            \<and> distinct (map fst grouping)
            \<and> (\<forall>g. map_of grouping g =
                  (if \<exists>k\<in>set (map fst state). map_of (actuator_group_mapping self) k = Some g
                   then Some (filter (\<lambda>(k, v). map_of (actuator_group_mapping self) k = Some g) state)
                   else None))"
    by blast
  with set_virtual_state_calls [OF assms(3) refl, of set_v] show ?thesis by blast
qed

text \<open>
  C6. Both setters should route the keys through the map of owning groups and batch
  them, so that the setter of every owning group is called exactly once, with exactly
  the keys the group owns. The code for a robot whose group \<open>arm\<close> owns both keys of
  the argument, with a group setter that records its calls: \<open>set_actuated_state\<close>
  calls the setter of \<open>arm\<close> once, with both entries; \<open>set_virtual_state\<close> calls it
  twice, with one entry each time.
\<close>

theorem set_virtual_state_not_batched:
  "map (internal \<circ> snd) (group_dict (snd
      (set_actuated_state recording arm_robot [(''shoulder_ry'', 1), (''elbow_ry'', 2)])))
     = [Some [[(''shoulder_ry'', 1), (''elbow_ry'', 2)]]]
   \<and> map (internal \<circ> snd) (group_dict (snd
      (set_virtual_state recording arm_robot
         [(''shoulder'', [(''ry'', 1)]), (''elbow'', [(''ry'', 2)])])))
     = [Some [[(''shoulder'', [(''ry'', 1)])], [(''elbow'', [(''ry'', 2)])]]]"
  by (simp add: arm_robot_def arm_def recording_def set_actuated_state_def)

section \<open>Construction of a robot\<close>

lemma register_keys_error:
  "register_keys e gname keys mapping = Inl e' \<Longrightarrow> e' = e"
  by (induction keys arbitrary: mapping) (auto split: if_splits)

lemma register_keys_ok:
  "register_keys e gname keys mapping = Inr mapping' \<Longrightarrow>
   set keys \<inter> fst ` set mapping = {} \<and> fst ` set mapping' = fst ` set mapping \<union> set keys"
proof (induction keys arbitrary: mapping)
  case Nil
  then show ?case by simp
next
  case (Cons key keys)
  from Cons.prems have new: "key \<notin> fst ` set mapping"
    and rest: "register_keys e gname keys (AList.update key gname mapping) = Inr mapping'"
    by (auto split: if_splits)
  from Cons.IH [OF rest] new show ?case
    by (auto simp: dom_update)
qed

lemma register_error:
  "register g self = Inl e \<Longrightarrow> e = KeyError_duplicate_actuator \<or> e = KeyError_duplicate_virtual"
  by (auto simp: register_def Let_def split: if_splits sum.splits dest: register_keys_error)

lemma register_ok:
  assumes "register g self = Inr self'"
  shows "group_dict self' = AList.update (name g) g (group_dict self)"
    and "virtual_state g \<noteq> [] \<Longrightarrow>
           set (map fst (actuated_state g)) \<inter> fst ` set (actuator_group_mapping self) = {}
           \<and> set (map fst (virtual_state g)) \<inter> fst ` set (virtual_group_mapping self) = {}
           \<and> fst ` set (actuator_group_mapping self')
               = fst ` set (actuator_group_mapping self) \<union> set (map fst (actuated_state g))
           \<and> fst ` set (virtual_group_mapping self')
               = fst ` set (virtual_group_mapping self) \<union> set (map fst (virtual_state g))"
    and "virtual_state g = [] \<Longrightarrow>
           actuator_group_mapping self' = actuator_group_mapping self
           \<and> virtual_group_mapping self' = virtual_group_mapping self"
proof -
  show "group_dict self' = AList.update (name g) g (group_dict self)"
    using assms by (auto simp: register_def Let_def split: if_splits sum.splits)
  show "actuator_group_mapping self' = actuator_group_mapping self
        \<and> virtual_group_mapping self' = virtual_group_mapping self" if "virtual_state g = []"
    using assms that by (auto simp: register_def Let_def)
  show "set (map fst (actuated_state g)) \<inter> fst ` set (actuator_group_mapping self) = {}
           \<and> set (map fst (virtual_state g)) \<inter> fst ` set (virtual_group_mapping self) = {}
           \<and> fst ` set (actuator_group_mapping self')
               = fst ` set (actuator_group_mapping self) \<union> set (map fst (actuated_state g))
           \<and> fst ` set (virtual_group_mapping self')
               = fst ` set (virtual_group_mapping self) \<union> set (map fst (virtual_state g))"
    if gate: "virtual_state g \<noteq> []"
  proof -
    from assms gate obtain am vm where
      am: "register_keys KeyError_duplicate_actuator (name g) (map fst (actuated_state g))
             (actuator_group_mapping self) = Inr am"
      and vm: "register_keys KeyError_duplicate_virtual (name g) (map fst (virtual_state g))
             (virtual_group_mapping self) = Inr vm"
      and self': "actuator_group_mapping self' = am" "virtual_group_mapping self' = vm"
      by (auto simp: register_def Let_def split: sum.splits)
    from register_keys_ok [OF am] register_keys_ok [OF vm] self' show ?thesis
      by simp
  qed
qed

lemma as_group_ok:
  assumes "as_group chain i self = Inr g"
  shows "name g = str (chain ! i)"
    and "virtual_state g = virtual_state (group_of (chain ! i))"
    and "actuated_state g = actuated_state (group_of (chain ! i))"
  using assms
  by (auto simp: as_group_def OpenKinematicGroup_def split: element.splits if_splits option.splits)

lemma as_group_error:
  "as_group chain i self = Inl e \<Longrightarrow>
   0 < i \<and> str (chain ! (i - 1)) \<notin> fst ` set (group_dict self)"
  by (auto simp: as_group_def map_of_eq_None_iff split: element.splits if_splits option.splits)

lemma init_loop_conflict:
  assumes "i < j" "j < length chain"
    and "virtual_state (group_of (chain ! i)) \<noteq> []" "virtual_state (group_of (chain ! j)) \<noteq> []"
    and "set (map fst (actuated_state (group_of (chain ! i))))
           \<inter> set (map fst (actuated_state (group_of (chain ! j)))) \<noteq> {}
         \<or> set (map fst (virtual_state (group_of (chain ! i))))
           \<inter> set (map fst (virtual_state (group_of (chain ! j)))) \<noteq> {}"
  shows "n \<le> j \<Longrightarrow>
     (\<forall>m<n. str (chain ! m) \<in> fst ` set (group_dict self)) \<Longrightarrow>
     (\<forall>m<n. virtual_state (group_of (chain ! m)) \<noteq> [] \<longrightarrow>
        set (map fst (actuated_state (group_of (chain ! m)))) \<subseteq> fst ` set (actuator_group_mapping self)
        \<and> set (map fst (virtual_state (group_of (chain ! m)))) \<subseteq> fst ` set (virtual_group_mapping self)) \<Longrightarrow>
     snd (init_loop chain n out self) = Inl KeyError_duplicate_actuator
     \<or> snd (init_loop chain n out self) = Inl KeyError_duplicate_virtual"
proof (induction "j - n" arbitrary: n out self rule: less_induct)
  case less
  from less.prems(1) assms(2) have n: "n < length chain" by simp
  define out' where "out' = (case chain ! n of
                       Transformation t \<Rightarrow> out @ [warning chain n]
                     | KinematicGroup g \<Rightarrow> out)"
  have known: "str (chain ! (n - 1)) \<in> fst ` set (group_dict self)" if "0 < n"
    using less.prems(2) that by simp
  obtain g where g: "as_group chain n self = Inr g"
    using as_group_error [of chain n self] known by (cases "as_group chain n self") auto
  note gk = as_group_ok [OF g]
  show ?case
  proof (cases "register g self")
    case (Inl e)
    with g n register_error [OF Inl] show ?thesis
      by (subst (1 2) init_loop.simps) (auto simp: Let_def)
  next
    case (Inr self')
    note reg = register_ok [OF Inr]
    have unfold: "init_loop chain n out self = init_loop chain (Suc n) out' self'"
      using n g Inr by (subst init_loop.simps) (simp add: out'_def Let_def)
    have "n \<noteq> j"
    proof
      assume nj: "n = j"
      with assms(1) have i: "i < n" by simp
      from nj assms(4) gk have gate: "virtual_state g \<noteq> []" by simp
      from less.prems(3) i assms(3)
      have "set (map fst (actuated_state (group_of (chain ! i)))) \<subseteq> fst ` set (actuator_group_mapping self)"
        "set (map fst (virtual_state (group_of (chain ! i)))) \<subseteq> fst ` set (virtual_group_mapping self)"
        by auto
      moreover from reg(2) [OF gate] gk nj
      have "set (map fst (actuated_state (group_of (chain ! j)))) \<inter> fst ` set (actuator_group_mapping self) = {}"
        "set (map fst (virtual_state (group_of (chain ! j)))) \<inter> fst ` set (virtual_group_mapping self) = {}"
        by auto
      ultimately show False using assms(5) by blast
    qed
    with less.prems(1) have le: "Suc n \<le> j" by simp
    have dom: "fst ` set (group_dict self') = insert (str (chain ! n)) (fst ` set (group_dict self))"
      using reg(1) gk(1) by (simp add: dom_update)
    have I1: "\<forall>m<Suc n. str (chain ! m) \<in> fst ` set (group_dict self')"
      using less.prems(2) dom by (auto simp: less_Suc_eq)
    have grow: "fst ` set (actuator_group_mapping self) \<subseteq> fst ` set (actuator_group_mapping self')
                \<and> fst ` set (virtual_group_mapping self) \<subseteq> fst ` set (virtual_group_mapping self')"
      using reg(2,3) by (cases "virtual_state g = []") auto
    have I2: "\<forall>m<Suc n. virtual_state (group_of (chain ! m)) \<noteq> [] \<longrightarrow>
        set (map fst (actuated_state (group_of (chain ! m)))) \<subseteq> fst ` set (actuator_group_mapping self')
        \<and> set (map fst (virtual_state (group_of (chain ! m)))) \<subseteq> fst ` set (virtual_group_mapping self')"
    proof (intro allI impI)
      fix m
      assume m: "m < Suc n" and gate: "virtual_state (group_of (chain ! m)) \<noteq> []"
      show "set (map fst (actuated_state (group_of (chain ! m)))) \<subseteq> fst ` set (actuator_group_mapping self')
        \<and> set (map fst (virtual_state (group_of (chain ! m)))) \<subseteq> fst ` set (virtual_group_mapping self')"
      proof (cases "m = n")
        case True
        with gate gk have "virtual_state g \<noteq> []" by simp
        from reg(2) [OF this] gk True show ?thesis by auto
      next
        case False
        with m have "m < n" by simp
        with less.prems(3) gate
        have "set (map fst (actuated_state (group_of (chain ! m)))) \<subseteq> fst ` set (actuator_group_mapping self)"
          and "set (map fst (virtual_state (group_of (chain ! m)))) \<subseteq> fst ` set (virtual_group_mapping self)"
          by simp_all
        then show ?thesis using grow by (meson subset_trans)
      qed
    qed
    from le have "j - Suc n < j - n" by simp
    from less.hyps [OF this le I1 I2, of out'] unfold show ?thesis by simp
  qed
qed

text \<open>
  Two groups whose virtual state is not empty and that declare the same actuated-state
  key, or the same virtual-state key, end the construction with one of the two
  naming-conflict errors.
\<close>

lemma naming_conflict:
  assumes "i < j" "j < length chain"
    and "virtual_state (group_of (chain ! i)) \<noteq> []" "virtual_state (group_of (chain ! j)) \<noteq> []"
    and "set (map fst (actuated_state (group_of (chain ! i))))
           \<inter> set (map fst (actuated_state (group_of (chain ! j)))) \<noteq> {}
         \<or> set (map fst (virtual_state (group_of (chain ! i))))
           \<inter> set (map fst (virtual_state (group_of (chain ! j)))) \<noteq> {}"
  shows "snd (Robot_init chain) = Inl KeyError_duplicate_actuator
         \<or> snd (Robot_init chain) = Inl KeyError_duplicate_virtual"
  unfolding Robot_init_def
  by (rule init_loop_conflict [OF assms]) simp_all

text \<open>
  C2. For every list in which two groups declare an actuated-state key with the same
  name the construction should raise the naming-conflict \<open>KeyError\<close>, as the docstring
  of the class says (lines 17-19). The code for two groups that both declare the
  actuator \<open>motor\<close> and whose virtual state is empty: the check of the keys is skipped
  for both (line 40), the construction succeeds, and \<open>motor\<close> is in no map.
\<close>

theorem naming_conflict_unchecked:
  "Robot_init [KinematicGroup (motor_group ''left'' []), KinematicGroup (motor_group ''right'' [])]
   = ([], Inr \<lparr> group_dict = [(''left'', motor_group ''left'' [] :: unit group),
                                (''right'', motor_group ''right'' [])],
                actuator_group_mapping = [], virtual_group_mapping = [] \<rparr>)"
  unfolding Robot_init_def
  apply (subst init_loop.simps)
  apply (simp add: as_group_def register_def motor_group_def)
  apply (subst init_loop.simps)
  apply (simp add: as_group_def register_def motor_group_def)
  apply (subst init_loop.simps)
  apply simp
  done

lemma register_keys_fresh:
  "distinct keys \<Longrightarrow> set keys \<inter> fst ` set mapping = {} \<Longrightarrow>
   register_keys e gname keys mapping = Inr (mapping @ map (\<lambda>k. (k, gname)) keys)"
proof (induction keys arbitrary: mapping)
  case Nil
  then show ?case by simp
next
  case (Cons key keys)
  from Cons.prems have new: "key \<notin> fst ` set mapping" by auto
  then have upd: "AList.update key gname mapping = mapping @ [(key, gname)]"
    by (rule update_new_key)
  from Cons.prems have "distinct keys" "set keys \<inter> fst ` set (mapping @ [(key, gname)]) = {}"
    by auto
  from Cons.IH [OF this] new upd show ?case by simp
qed

lemma name_wrapped: "name (wrapped chain i) = str (chain ! i)"
  by (cases "chain ! i") (simp_all add: wrapped_def OpenKinematicGroup_def)

lemma declared_Suc:
  "declared f chain (Suc n) =
     declared f chain n @
       (if virtual_state (wrapped chain n) \<noteq> []
        then map (\<lambda>k. (k, str (chain ! n))) (f (wrapped chain n)) else [])"
  by (simp add: declared_def)

lemma group_dict_constructed_Suc:
  "group_dict (constructed chain (Suc n)) =
     AList.update (str (chain ! n)) (wrapped chain n) (group_dict (constructed chain n))"
  by (simp add: constructed_def)

lemma lookup_constructed_last:
  "map_of (group_dict (constructed chain (Suc n))) (str (chain ! n)) = Some (wrapped chain n)"
  by (simp add: group_dict_constructed_Suc update_conv')

lemma lookup_constructed:
  "i < n \<Longrightarrow> \<forall>j. i < j \<and> j < n \<longrightarrow> str (chain ! j) \<noteq> str (chain ! i) \<Longrightarrow>
   map_of (group_dict (constructed chain n)) (str (chain ! i)) = Some (wrapped chain i)"
proof (induction n)
  case 0
  then show ?case by simp
next
  case (Suc n)
  show ?case
  proof (cases "i = n")
    case True
    then show ?thesis by (simp add: lookup_constructed_last)
  next
    case False
    with Suc.prems have "i < n" "str (chain ! n) \<noteq> str (chain ! i)"
      "\<forall>j. i < j \<and> j < n \<longrightarrow> str (chain ! j) \<noteq> str (chain ! i)"
      by simp_all
    with Suc.IH show ?thesis
      by (simp add: group_dict_constructed_Suc update_conv')
  qed
qed

lemma as_group_constructed:
  "as_group chain n (constructed chain n) = Inr (wrapped chain n)"
proof (cases "chain ! n")
  case (KinematicGroup g)
  then show ?thesis by (simp add: as_group_def wrapped_def)
next
  case (Transformation t)
  show ?thesis
  proof (cases n)
    case 0
    with Transformation show ?thesis
      by (simp add: as_group_def wrapped_def OpenKinematicGroup_def)
  next
    case (Suc m)
    with Transformation lookup_constructed_last [of chain m] name_wrapped [of chain m]
    show ?thesis
      by (simp add: as_group_def wrapped_def OpenKinematicGroup_def)
  qed
qed

lemma conflict_free_Suc: "conflict_free chain (Suc n) \<Longrightarrow> conflict_free chain n"
  by (simp add: conflict_free_def declared_Suc)

lemma conflict_free_le: "n \<le> m \<Longrightarrow> conflict_free chain m \<Longrightarrow> conflict_free chain n"
  by (induction m) (auto simp: le_Suc_eq dest: conflict_free_Suc)

lemma register_constructed:
  assumes "conflict_free chain (Suc n)"
  shows "register (wrapped chain n) (constructed chain n) = Inr (constructed chain (Suc n))"
proof (cases "virtual_state (wrapped chain n) = []")
  case True
  then show ?thesis
    by (simp add: register_def constructed_def declared_def name_wrapped)
next
  case False
  let ?A = "declared (map fst \<circ> actuated_state) chain n"
  let ?V = "declared (map fst \<circ> virtual_state) chain n"
  let ?ak = "map fst (actuated_state (wrapped chain n))"
  let ?vk = "map fst (virtual_state (wrapped chain n))"
  have mk: "map fst (map (\<lambda>k. (k, str (chain ! n))) ks) = ks" for ks :: "string list"
    by (simp add: comp_def)
  from assms False have a: "distinct ?ak" "set ?ak \<inter> fst ` set ?A = {}"
    and v: "distinct ?vk" "set ?vk \<inter> fst ` set ?V = {}"
    by (auto simp: conflict_free_def declared_Suc comp_def)
  have ra: "register_keys KeyError_duplicate_actuator (str (chain ! n)) ?ak ?A
              = Inr (?A @ map (\<lambda>k. (k, str (chain ! n))) ?ak)"
    using a by (rule register_keys_fresh)
  have rv: "register_keys KeyError_duplicate_virtual (str (chain ! n)) ?vk ?V
              = Inr (?V @ map (\<lambda>k. (k, str (chain ! n))) ?vk)"
    using v by (rule register_keys_fresh)
  have "register (wrapped chain n) (constructed chain n) =
          Inr \<lparr> group_dict = AList.update (str (chain ! n)) (wrapped chain n)
                               (group_dict (constructed chain n)),
                actuator_group_mapping = ?A @ map (\<lambda>k. (k, str (chain ! n))) ?ak,
                virtual_group_mapping = ?V @ map (\<lambda>k. (k, str (chain ! n))) ?vk \<rparr>"
    using False ra rv by (simp add: register_def name_wrapped constructed_def)
  also have "\<dots> = Inr (constructed chain (Suc n))"
    using False by (simp add: constructed_def declared_Suc)
  finally show ?thesis .
qed

lemma notices_upto_Suc:
  "notices_upto chain (Suc n) =
     (case chain ! n of
        Transformation t \<Rightarrow> notices_upto chain n @ [warning chain n]
      | KinematicGroup g \<Rightarrow> notices_upto chain n)"
  by (cases "chain ! n") (simp_all add: notices_upto_def)

lemma init_loop_step:
  assumes "n < length chain" and "conflict_free chain (Suc n)"
  shows "init_loop chain n (notices_upto chain n) (constructed chain n) =
           init_loop chain (Suc n) (notices_upto chain (Suc n)) (constructed chain (Suc n))"
  using assms(1)
  by (subst init_loop.simps)
     (simp add: as_group_constructed register_constructed [OF assms(2)] notices_upto_Suc)

lemma init_loop_reaches:
  "n \<le> length chain \<Longrightarrow> conflict_free chain n \<Longrightarrow>
   Robot_init chain = init_loop chain n (notices_upto chain n) (constructed chain n)"
proof (induction n)
  case 0
  show ?case by (simp add: Robot_init_def notices_upto_def constructed_def declared_def)
next
  case (Suc n)
  from Suc.prems have "n < length chain" "conflict_free chain n" "n \<le> length chain"
    by (auto dest: conflict_free_Suc)
  with Suc.IH init_loop_step [OF this(1) Suc.prems(2)] show ?case by simp
qed

lemma init_loop_output:
  "\<exists>ys. fst (init_loop chain n out self) = out @ ys"
proof (induction "length chain - n" arbitrary: n out self rule: less_induct)
  case less
  show ?case
  proof (cases "n < length chain")
    case False
    then show ?thesis by (subst init_loop.simps) simp
  next
    case True
    define out' where "out' = (case chain ! n of
                       Transformation t \<Rightarrow> out @ [warning chain n]
                     | KinematicGroup g \<Rightarrow> out)"
    have ext: "\<exists>zs. out' = out @ zs"
      by (cases "chain ! n") (simp_all add: out'_def)
    from True have "length chain - Suc n < length chain - n" by simp
    from less.hyps [OF this] have rec: "\<exists>ys. fst (init_loop chain (Suc n) out' s) = out' @ ys" for s
      by blast
    show ?thesis
    proof (cases "as_group chain n self")
      case (Inl e)
      with True ext show ?thesis
        by (subst init_loop.simps) (auto simp: Let_def out'_def)
    next
      case (Inr g)
      show ?thesis
      proof (cases "register g self")
        case (Inl e)
        with True ext \<open>as_group chain n self = Inr g\<close> show ?thesis
          by (subst init_loop.simps) (auto simp: Let_def out'_def)
      next
        case (Inr self')
        from rec [of self'] ext obtain ys zs where
          "fst (init_loop chain (Suc n) out' self') = out' @ ys" "out' = out @ zs"
          by blast
        then have "fst (init_loop chain (Suc n) out' self') = out @ (zs @ ys)" by simp
        with True \<open>as_group chain n self = Inr g\<close> Inr show ?thesis
          by (subst init_loop.simps) (auto simp: Let_def out'_def)
      qed
    qed
  qed
qed

lemma init_loop_notice:
  assumes "i < length chain" and "chain ! i = Transformation t"
  shows "\<exists>ys. fst (init_loop chain i out self) = out @ [warning chain i] @ ys"
proof (cases "as_group chain i self")
  case (Inl e)
  with assms show ?thesis by (subst init_loop.simps) simp
next
  case (Inr g)
  show ?thesis
  proof (cases "register g self")
    case (Inl e)
    with assms \<open>as_group chain i self = Inr g\<close> show ?thesis
      by (subst init_loop.simps) simp
  next
    case (Inr self')
    from init_loop_output [of chain "Suc i" "out @ [warning chain i]" self']
    obtain ys where "fst (init_loop chain (Suc i) (out @ [warning chain i]) self')
                       = (out @ [warning chain i]) @ ys"
      by blast
    with assms \<open>as_group chain i self = Inr g\<close> Inr show ?thesis
      by (subst init_loop.simps) simp
  qed
qed

text \<open>
  C8. During the construction of a robot every bare transformation at position \<open>i\<close> of
  the list is wrapped into a singleton open group whose parent is the element at
  position \<open>i - 1\<close> (a root at position 0), a notice is printed for it, and the group
  is registered under the name of the transformation. For every list without a naming
  conflict before position \<open>i\<close> the construction reaches that position with the notices
  and the table of the positions before it; there it prints the notice (which stays in
  the output whatever becomes of the construction) and wraps the transformation, with
  the group of position \<open>i - 1\<close> as the parent found in the table; without a conflict at
  \<open>i\<close> it goes on with the group entered under the name of the transformation; and
  without any conflict it returns the robot with the table of all positions, in which
  the name is still bound to this group unless a later element carries the name.
\<close>

theorem transformation_wrapped:
  assumes "i < length chain"
    and "chain ! i = Transformation t"
    and "conflict_free chain i"
  shows "Robot_init chain = init_loop chain i (notices_upto chain i) (constructed chain i)
         \<and> (\<exists>rest. fst (Robot_init chain) = notices_upto chain i @ [warning chain i] @ rest)
         \<and> as_group chain i (constructed chain i)
             = Inr ((OpenKinematicGroup (t_name t) [t] None)
                      \<lparr>parent := (if i = 0 then t_name t else str (chain ! (i - 1)))\<rparr>)
         \<and> (0 < i \<longrightarrow>
              map_of (group_dict (constructed chain i)) (str (chain ! (i - 1)))
                = Some (wrapped chain (i - 1)))
         \<and> (conflict_free chain (Suc i) \<longrightarrow>
              Robot_init chain
                = init_loop chain (Suc i) (notices_upto chain i @ [warning chain i])
                    (constructed chain (Suc i))
              \<and> map_of (group_dict (constructed chain (Suc i))) (t_name t)
                  = Some ((OpenKinematicGroup (t_name t) [t] None)
                            \<lparr>parent := (if i = 0 then t_name t else str (chain ! (i - 1)))\<rparr>))
         \<and> (conflict_free chain (length chain) \<longrightarrow>
              Robot_init chain
                = (notices_upto chain (length chain), Inr (constructed chain (length chain)))
              \<and> ((\<forall>j. i < j \<and> j < length chain \<longrightarrow> str (chain ! j) \<noteq> t_name t) \<longrightarrow>
                   map_of (group_dict (constructed chain (length chain))) (t_name t)
                     = Some ((OpenKinematicGroup (t_name t) [t] None)
                               \<lparr>parent := (if i = 0 then t_name t else str (chain ! (i - 1)))\<rparr>)))"
proof -
  have w: "wrapped chain i = (OpenKinematicGroup (t_name t) [t] None)
                      \<lparr>parent := (if i = 0 then t_name t else str (chain ! (i - 1)))\<rparr>"
    using assms(2) by (simp add: wrapped_def)
  have s: "str (chain ! i) = t_name t" using assms(2) by simp
  from assms(1,3) have reach: "Robot_init chain
      = init_loop chain i (notices_upto chain i) (constructed chain i)"
    by (simp add: init_loop_reaches)
  from init_loop_notice [OF assms(1,2)] reach
  have notice: "\<exists>rest. fst (Robot_init chain) = notices_upto chain i @ [warning chain i] @ rest"
    by simp
  have wrap: "as_group chain i (constructed chain i)
             = Inr ((OpenKinematicGroup (t_name t) [t] None)
                      \<lparr>parent := (if i = 0 then t_name t else str (chain ! (i - 1)))\<rparr>)"
    using as_group_constructed [of chain i] w by simp
  have par: "0 < i \<longrightarrow>
              map_of (group_dict (constructed chain i)) (str (chain ! (i - 1)))
                = Some (wrapped chain (i - 1))"
    using lookup_constructed_last [of chain "i - 1"] by auto
  have next_pos: "Robot_init chain
                = init_loop chain (Suc i) (notices_upto chain i @ [warning chain i])
                    (constructed chain (Suc i))
              \<and> map_of (group_dict (constructed chain (Suc i))) (t_name t)
                  = Some ((OpenKinematicGroup (t_name t) [t] None)
                            \<lparr>parent := (if i = 0 then t_name t else str (chain ! (i - 1)))\<rparr>)"
    if cf: "conflict_free chain (Suc i)"
  proof -
    from assms(1) cf have "Robot_init chain
        = init_loop chain (Suc i) (notices_upto chain (Suc i)) (constructed chain (Suc i))"
      by (simp add: init_loop_reaches)
    with assms(2) lookup_constructed_last [of chain i] w s show ?thesis
      by (simp add: notices_upto_Suc)
  qed
  have final: "Robot_init chain
                = (notices_upto chain (length chain), Inr (constructed chain (length chain)))
              \<and> ((\<forall>j. i < j \<and> j < length chain \<longrightarrow> str (chain ! j) \<noteq> t_name t) \<longrightarrow>
                   map_of (group_dict (constructed chain (length chain))) (t_name t)
                     = Some ((OpenKinematicGroup (t_name t) [t] None)
                               \<lparr>parent := (if i = 0 then t_name t else str (chain ! (i - 1)))\<rparr>))"
    if cf: "conflict_free chain (length chain)"
  proof -
    from cf have "Robot_init chain
        = init_loop chain (length chain) (notices_upto chain (length chain))
            (constructed chain (length chain))"
      by (simp add: init_loop_reaches)
    then have a: "Robot_init chain
        = (notices_upto chain (length chain), Inr (constructed chain (length chain)))"
      by (simp add: init_loop.simps)
    have b: "map_of (group_dict (constructed chain (length chain))) (t_name t)
               = Some ((OpenKinematicGroup (t_name t) [t] None)
                         \<lparr>parent := (if i = 0 then t_name t else str (chain ! (i - 1)))\<rparr>)"
      if "\<forall>j. i < j \<and> j < length chain \<longrightarrow> str (chain ! j) \<noteq> t_name t"
      using lookup_constructed [OF assms(1), of chain] that w s by simp
    from a b show ?thesis by blast
  qed
  from reach notice wrap par next_pos final show ?thesis by blast
qed


theorem transformation_wrapped_witness:
  "Robot_init (two_link_chain :: unit element list)
     = ([''Warning: Transformation base was converted to a OpenKinematicGroup with parent joint'',
         ''Warning: Transformation joint was converted to a OpenKinematicGroup with parent base''],
        Inr \<lparr> group_dict = [(''base'', OpenKinematicGroup ''base'' [base] None),
                             (''joint'', (OpenKinematicGroup ''joint'' [joint] None)\<lparr>parent := ''base''\<rparr>)],
              actuator_group_mapping = [(''joint_ry'', ''joint'')],
              virtual_group_mapping = [(''joint'', ''joint'')] \<rparr>)
   \<and> map_of (group_dict (constructed (two_link_chain :: unit element list) 2)) ''joint''
       = Some ((OpenKinematicGroup ''joint'' [joint] None)\<lparr>parent := ''base''\<rparr>)"
proof -
  have two: "[0..<2] = [0, Suc 0]" by (simp add: upt_rec numeral_2_eq_2)
  have len: "length (two_link_chain :: unit element list) = 2"
    and pos: "1 < length (two_link_chain :: unit element list)"
    and at: "(two_link_chain :: unit element list) ! 1 = Transformation joint"
    by (simp_all add: two_link_chain_def)
  have w0: "wrapped (two_link_chain :: unit element list) 0 = OpenKinematicGroup ''base'' [base] None"
    and w1: "wrapped (two_link_chain :: unit element list) (Suc 0)
               = (OpenKinematicGroup ''joint'' [joint] None)\<lparr>parent := ''base''\<rparr>"
    by (simp_all add: wrapped_def two_link_chain_def OpenKinematicGroup_def base_def joint_def)
  have cf1: "conflict_free (two_link_chain :: unit element list) 1"
    by (simp add: conflict_free_def declared_def w0 OpenKinematicGroup_def base_def)
  have cf2: "conflict_free (two_link_chain :: unit element list) (length (two_link_chain :: unit element list))"
    by (simp add: len two conflict_free_def declared_def w0 w1 OpenKinematicGroup_def base_def joint_def)
  have notices: "notices_upto (two_link_chain :: unit element list) 2
      = [''Warning: Transformation base was converted to a OpenKinematicGroup with parent joint'',
         ''Warning: Transformation joint was converted to a OpenKinematicGroup with parent base'']"
    by (simp add: notices_upto_def two two_link_chain_def warning_def base_def joint_def)
  have built: "constructed (two_link_chain :: unit element list) 2
      = \<lparr> group_dict = [(''base'', OpenKinematicGroup ''base'' [base] None),
                             (''joint'', (OpenKinematicGroup ''joint'' [joint] None)\<lparr>parent := ''base''\<rparr>)],
              actuator_group_mapping = [(''joint_ry'', ''joint'')],
              virtual_group_mapping = [(''joint'', ''joint'')] \<rparr>"
    by (simp add: constructed_def declared_def two w0 w1)
       (simp add: two_link_chain_def OpenKinematicGroup_def base_def joint_def)
  have "Robot_init (two_link_chain :: unit element list)
          = (notices_upto two_link_chain (length (two_link_chain :: unit element list)),
             Inr (constructed two_link_chain (length (two_link_chain :: unit element list))))"
    by (rule transformation_wrapped [OF pos at cf1, THEN conjunct2, THEN conjunct2,
          THEN conjunct2, THEN conjunct2, THEN conjunct2, THEN mp, OF cf2, THEN conjunct1])
  then have run: "Robot_init (two_link_chain :: unit element list)
          = (notices_upto two_link_chain 2, Inr (constructed two_link_chain 2))"
    by (simp only: len)
  show ?thesis
    unfolding run notices built by simp
qed

end
